theory Spec2Isabelle
  imports
    Main
    "HOL-Library.Multiset"
    "HOL-Library.Char_ord"
    "HOL-Library.List_Lexorder"
begin

section \<open>The blog service: cache-aside reads, engagement counters, invalidation\<close>

text \<open>
  The service under study is \<^verbatim>\<open>blog.service.ts\<close> in its current form, the one with the
  helpers \<^verbatim>\<open>safeRedisGet\<close>, \<^verbatim>\<open>safeRedisSet\<close> and \<^verbatim>\<open>safeRedisDel\<close>. (The repository also
  holds an older copy that calls the Redis client directly; \<^verbatim>\<open>incrementViews\<close>,
  \<^verbatim>\<open>unlikeBlog\<close> and \<^verbatim>\<open>searchByTags\<close> compute the same there.) It talks to two
  collaborators: a Redis client (\<^verbatim>\<open>redis\<close>) and a Prisma client (\<^verbatim>\<open>prisma.blogs\<close>).
  Both are modelled as parts of one explicit state, the \<open>world\<close>; every service function
  takes the world and returns its result together with the world it leaves behind. A thrown
  exception is a result \<open>Inl e\<close>; the world that comes with it holds the effects that
  happened before the throw.

  Each \<^verbatim>\<open>await\<close> of the source is one atomic action on the world. A service function, run
  alone, is the sequence of its awaits; the section on the like race runs two calls with
  their awaits interleaved.

  Time does not pass in the model: an entry keeps the time to live it was stored with, and
  no entry expires. Everything below happens within the time to live of every entry.
\<close>

subsection \<open>Data model\<close>

text \<open>
  A row of the Prisma model \<^verbatim>\<open>blogs\<close>. The fields carry the prefix \<open>b_\<close>, since the
  source uses the bare names for parameters as well. \<^verbatim>\<open>updatedAt\<close> and the included
  \<^verbatim>\<open>user\<close> object play no part in the logic and are left out. Counters are unbounded
  integers.
\<close>

record blogs =
  b_id :: string
  b_slug :: string
  b_title :: string
  b_description :: string
  b_tags :: "string list"
  b_published :: bool
  b_isDeleted :: bool
  b_userId :: string
  b_views :: int
  b_likes :: int
  b_createdAt :: nat

text \<open>
  A value held by Redis. Redis holds strings; the service writes three shapes of them:
  \<^verbatim>\<open>JSON.stringify\<close> of one row, \<^verbatim>\<open>JSON.stringify\<close> of a list of rows, and decimal
  integers (the counters, and the like marker \<^verbatim>\<open>'1'\<close>). The model keeps the shape as a
  tag, so that \<^verbatim>\<open>JSON.parse (JSON.stringify x)\<close> is \<open>x\<close>. None of the three is the empty
  string, so every stored value is truthy in JavaScript.
\<close>

datatype cval = Snapshot blogs | Page "blogs list" | Num int

text \<open>An entry is a value with the time to live (in seconds) given to \<^verbatim>\<open>setex\<close>, if any.\<close>

type_synonym entry = "cval \<times> int option"

datatype error =
    AppError nat string
  | RedisError
  | PrismaError
  | JsError

text \<open>The calls issued to the durable store, in order.\<close>

datatype dbcall =
    FindById string
  | FindBySlug string
  | FindFirstAny
  | FindMany
  | Create string
  | Update string
  | IncrViews string int
  | IncrLikes string int
  | SetDeleted string
  | Delete string

record world =
  cache :: "(string \<times> entry) list"
  cacheDown :: bool
  rows :: "blogs list"
  dbLog :: "dbcall list"

definition NotFound :: error where
  "NotFound = AppError 404 ''Blog not found''"

definition Conflict :: error where
  "Conflict = AppError 409 ''Blog with this slug already exists''"

definition Unauthenticated :: error where
  "Unauthenticated = AppError 401 ''User not authenticated''"

definition AlreadyLiked :: error where
  "AlreadyLiked = AppError 400 ''You have already liked this blog''"

definition NotLiked :: error where
  "NotLiked = AppError 400 (''You haven'' @ [CHR 0x27] @ ''t liked this blog'')"

subsection \<open>The Redis client\<close>

text \<open>
  Every command raises when the cache is down. \<^verbatim>\<open>incr\<close> and \<^verbatim>\<open>decr\<close> create a missing
  key at 0 first, keep the time to live of an existing one, and raise on a value that is not
  an integer. \<^verbatim>\<open>keys\<close> is only ever called with a pattern \<^verbatim>\<open>prefix*\<close>; the model takes
  the prefix (a user identifier inside a pattern is assumed free of glob characters).
\<close>

definition lookup :: "string \<Rightarrow> world \<Rightarrow> cval option" where
  "lookup k w = map_option fst (map_of (cache w) k)"

definition redis_get :: "string \<Rightarrow> world \<Rightarrow> error + cval option" where
  "redis_get k w = (if cacheDown w then Inl RedisError else Inr (lookup k w))"

definition store :: "string \<Rightarrow> entry \<Rightarrow> world \<Rightarrow> world" where
  "store k e w = w\<lparr>cache := (k, e) # filter (\<lambda>x. fst x \<noteq> k) (cache w)\<rparr>"

definition redis_setex :: "string \<Rightarrow> int \<Rightarrow> cval \<Rightarrow> world \<Rightarrow> error + world" where
  "redis_setex k t v w =
     (if cacheDown w then Inl RedisError else Inr (store k (v, Some t) w))"

definition redis_del :: "string list \<Rightarrow> world \<Rightarrow> error + world" where
  "redis_del ks w =
     (if cacheDown w then Inl RedisError
      else Inr (w\<lparr>cache := filter (\<lambda>e. fst e \<notin> set ks) (cache w)\<rparr>))"

definition redis_add :: "int \<Rightarrow> string \<Rightarrow> world \<Rightarrow> error + (int \<times> world)" where
  "redis_add d k w =
     (if cacheDown w then Inl RedisError
      else case map_of (cache w) k of
             None \<Rightarrow> Inr (d, store k (Num d, None) w)
           | Some (Num n, t) \<Rightarrow> Inr (n + d, store k (Num (n + d), t) w)
           | Some (Snapshot b, t) \<Rightarrow> Inl RedisError
           | Some (Page bs, t) \<Rightarrow> Inl RedisError)"

definition redis_incr :: "string \<Rightarrow> world \<Rightarrow> error + (int \<times> world)" where
  "redis_incr k w = redis_add 1 k w"

definition redis_decr :: "string \<Rightarrow> world \<Rightarrow> error + (int \<times> world)" where
  "redis_decr k w = redis_add (- 1) k w"

definition startsWith :: "string \<Rightarrow> string \<Rightarrow> bool" where
  "startsWith p k = (take (length p) k = p)"

definition keysMatching :: "string \<Rightarrow> world \<Rightarrow> string list" where
  "keysMatching p w = filter (startsWith p) (map fst (cache w))"

definition redis_keys :: "string \<Rightarrow> world \<Rightarrow> error + string list" where
  "redis_keys p w = (if cacheDown w then Inl RedisError else Inr (keysMatching p w))"

subsection \<open>The Prisma client\<close>

text \<open>
  Reads return the first row that matches; \<^verbatim>\<open>update\<close> and \<^verbatim>\<open>delete\<close> raise when no row
  has the identifier; \<^verbatim>\<open>update\<close> and \<^verbatim>\<open>create\<close> raise when they would write a slug that
  another row holds (the column is unique). Every call is appended to the log, whether it succeeds or not.
\<close>

definition logged :: "dbcall \<Rightarrow> world \<Rightarrow> world" where
  "logged c w = w\<lparr>dbLog := dbLog w @ [c]\<rparr>"

definition row :: "string \<Rightarrow> world \<Rightarrow> blogs option" where
  "row i w = find (\<lambda>b. b_id b = i) (rows w)"

definition rowBySlug :: "string \<Rightarrow> world \<Rightarrow> blogs option" where
  "rowBySlug s w = find (\<lambda>b. b_slug b = s) (rows w)"

definition findUnique_id :: "string \<Rightarrow> world \<Rightarrow> blogs option \<times> world" where
  "findUnique_id i w = (row i w, logged (FindById i) w)"

definition findUnique_slug :: "string \<Rightarrow> world \<Rightarrow> blogs option \<times> world" where
  "findUnique_slug s w = (rowBySlug s w, logged (FindBySlug s) w)"

definition slugTaken :: "string \<Rightarrow> string \<Rightarrow> world \<Rightarrow> bool" where
  "slugTaken s i w = (find (\<lambda>b. b_slug b = s \<and> b_id b \<noteq> i) (rows w) \<noteq> None)"

definition setRow :: "string \<Rightarrow> blogs \<Rightarrow> world \<Rightarrow> world" where
  "setRow i b w = w\<lparr>rows := map (\<lambda>r. if b_id r = i then b else r) (rows w)\<rparr>"

definition prisma_update ::
    "string \<Rightarrow> dbcall \<Rightarrow> (blogs \<Rightarrow> blogs) \<Rightarrow> world \<Rightarrow> (error + blogs) \<times> world" where
  "prisma_update i c f w =
     (case row i w of
        None \<Rightarrow> (Inl PrismaError, logged c w)
      | Some b \<Rightarrow>
          (if b_slug (f b) \<noteq> b_slug b \<and> slugTaken (b_slug (f b)) i w
           then (Inl PrismaError, logged c w)
           else (Inr (f b), logged c (setRow i (f b) w))))"

definition prisma_delete :: "string \<Rightarrow> world \<Rightarrow> (error + unit) \<times> world" where
  "prisma_delete i w =
     (case row i w of
        None \<Rightarrow> (Inl PrismaError, logged (Delete i) w)
      | Some b \<Rightarrow>
          (Inr (), logged (Delete i) (w\<lparr>rows := filter (\<lambda>r. b_id r \<noteq> i) (rows w)\<rparr>)))"

definition prisma_create :: "blogs \<Rightarrow> world \<Rightarrow> (error + blogs) \<times> world" where
  "prisma_create b w =
     (if row (b_id b) w \<noteq> None \<or> rowBySlug (b_slug b) w \<noteq> None
      then (Inl PrismaError, logged (Create (b_id b)) w)
      else (Inr b, logged (Create (b_id b)) (w\<lparr>rows := rows w @ [b]\<rparr>)))"

subsection \<open>Cache keys and times to live\<close>

definition CacheKeys_blog :: "string \<Rightarrow> string" where
  "CacheKeys_blog i = ''blog:'' @ i"

definition CacheKeys_blogSlug :: "string \<Rightarrow> string" where
  "CacheKeys_blogSlug s = ''blog:slug:'' @ s"

definition CacheKeys_myBlogs :: "string \<Rightarrow> string" where
  "CacheKeys_myBlogs u = ''blogs:user:'' @ u"

definition CacheKeys_trending :: string where
  "CacheKeys_trending = ''blogs:trending''"

definition CacheKeys_views :: "string \<Rightarrow> string" where
  "CacheKeys_views i = ''blog:views:'' @ i"

definition CacheKeys_likes :: "string \<Rightarrow> string" where
  "CacheKeys_likes i = ''blog:likes:'' @ i"

definition CacheKeys_userLike :: "string \<Rightarrow> string \<Rightarrow> string" where
  "CacheKeys_userLike u i = ''blog:userlike:'' @ u @ '':'' @ i"

definition CacheTTL_blog :: int where
  "CacheTTL_blog = 3600"

definition CacheTTL_list :: int where
  "CacheTTL_list = 600"

definition CacheTTL_userLike :: int where
  "CacheTTL_userLike = 86400 * 30"

subsection \<open>Cache helpers\<close>

definition safeRedisSet :: "string \<Rightarrow> int \<Rightarrow> cval \<Rightarrow> world \<Rightarrow> world" where
  "safeRedisSet key ttl v w = (case redis_setex key ttl v w of Inl err \<Rightarrow> w | Inr w' \<Rightarrow> w')"

definition safeRedisDel :: "string list \<Rightarrow> world \<Rightarrow> world" where
  "safeRedisDel keys w =
     (if keys = [] then w
      else case redis_del keys w of Inl err \<Rightarrow> w | Inr w' \<Rightarrow> w')"

definition safeRedisGet :: "string \<Rightarrow> world \<Rightarrow> cval option" where
  "safeRedisGet key w = (case redis_get key w of Inl err \<Rightarrow> None | Inr v \<Rightarrow> v)"

text \<open>\<^verbatim>\<open>redis.keys(pattern).catch(() => [])\<close>\<close>

definition keysOrEmpty :: "string \<Rightarrow> world \<Rightarrow> string list" where
  "keysOrEmpty p w = (case redis_keys p w of Inl err \<Rightarrow> [] | Inr ks \<Rightarrow> ks)"

text \<open>
  JavaScript truthiness of an optional string: \<^verbatim>\<open>undefined\<close> and the empty string are
  falsy. A template literal prints \<^verbatim>\<open>undefined\<close> as the word.
\<close>

definition truthy :: "string option \<Rightarrow> string option" where
  "truthy x = (case x of None \<Rightarrow> None | Some s \<Rightarrow> if s = [] then None else Some s)"

definition template :: "string option \<Rightarrow> string" where
  "template x = (case x of None \<Rightarrow> ''undefined'' | Some s \<Rightarrow> s)"

subsection \<open>Cache invalidation\<close>

definition invalidateBlogCache :: "string \<Rightarrow> string option \<Rightarrow> world \<Rightarrow> world" where
  "invalidateBlogCache blogId slug w =
     (let keysToDelete =
            [CacheKeys_blog blogId, CacheKeys_trending] @
            (case truthy slug of Some s \<Rightarrow> [CacheKeys_blogSlug s] | None \<Rightarrow> []);
          listKeys = keysOrEmpty ''blogs:all:'' w;
          userBlogsKeys = keysOrEmpty ''blogs:user:'' w
      in safeRedisDel (keysToDelete @ listKeys @ userBlogsKeys) w)"

subsection \<open>Views\<close>

text \<open>
  \<^verbatim>\<open>incrementViews\<close>: the whole body sits in \<^verbatim>\<open>try\<close>/\<^verbatim>\<open>catch\<close>, so it never raises. The
  deletion of the post's primary cache key comes after the \<^verbatim>\<open>if\<close>, not inside it: it runs
  on every call in which \<^verbatim>\<open>incr\<close> and the flush (if any) did not raise.
\<close>

definition incrementViews :: "string \<Rightarrow> string option \<Rightarrow> world \<Rightarrow> world" where
  "incrementViews blogId currentUserId w =
     (let (own, w0) =
            (case truthy currentUserId of
               None \<Rightarrow> (False, w)
             | Some u \<Rightarrow>
                 (case findUnique_id blogId w of
                    (blog, w') \<Rightarrow> (map_option b_userId blog = Some u, w')))
      in if own then w0
         else case redis_incr (CacheKeys_views blogId) w0 of
                Inl err \<Rightarrow> w0
              | Inr (views, w1) \<Rightarrow>
                  (if views mod 10 = 0 then
                     (case prisma_update blogId (IncrViews blogId 10)
                             (\<lambda>b. b\<lparr>b_views := b_views b + 10\<rparr>) w1 of
                        (Inl err, w2) \<Rightarrow> w2
                      | (Inr b, w2) \<Rightarrow> safeRedisDel [CacheKeys_blog blogId] w2)
                   else safeRedisDel [CacheKeys_blog blogId] w1))"

subsection \<open>Reading one post\<close>

text \<open>
  \<^verbatim>\<open>prisma.blogs.findFirst({ where: id ? { id } : { slug } })\<close>. An undefined slug is no
  condition at all, and the first row of the table comes back.
\<close>

definition findFirst :: "string option \<Rightarrow> string option \<Rightarrow> world \<Rightarrow> blogs option \<times> world" where
  "findFirst id' slug w =
     (case truthy id' of
        Some i \<Rightarrow> (row i w, logged (FindById i) w)
      | None \<Rightarrow>
          (case slug of
             Some s \<Rightarrow> (rowBySlug s w, logged (FindBySlug s) w)
           | None \<Rightarrow> (case rows w of [] \<Rightarrow> None | r # rs \<Rightarrow> Some r, logged FindFirstAny w)))"

text \<open>
  \<^verbatim>\<open>parseInt((await safeRedisGet(CacheKeys.views(blog.id))) || '0')\<close>: \<open>None\<close> stands for
  \<^verbatim>\<open>NaN\<close>, which a value that is no integer gives.
\<close>

definition redisViews :: "string \<Rightarrow> world \<Rightarrow> int option" where
  "redisViews i w =
     (case safeRedisGet (CacheKeys_views i) w of
        None \<Rightarrow> Some 0
      | Some (Num n) \<Rightarrow> Some n
      | Some (Snapshot b) \<Rightarrow> None
      | Some (Page bs) \<Rightarrow> None)"

text \<open>
  \<^verbatim>\<open>getBlog\<close>. On a hit whose value is not the snapshot of a row, \<^verbatim>\<open>blog.id\<close> is
  \<^verbatim>\<open>undefined\<close>: the view counter of the key \<^verbatim>\<open>blog:views:undefined\<close> is bumped and what
  comes back is not a post; the model reports \<open>JsError\<close> there, and also where the merged
  view count would be \<^verbatim>\<open>NaN\<close>.
\<close>

definition getBlog :: "string option \<Rightarrow> string option \<Rightarrow> world \<Rightarrow> (error + blogs) \<times> world" where
  "getBlog id' slug w =
     (let cacheKey =
            (case truthy id' of
               Some i \<Rightarrow> CacheKeys_blog i
             | None \<Rightarrow> CacheKeys_blogSlug (template slug))
      in case safeRedisGet cacheKey w of
           Some (Snapshot blog) \<Rightarrow>
             (let w1 = incrementViews (b_id blog) None w
              in case redisViews (b_id blog) w1 of
                   Some n \<Rightarrow> (Inr (blog\<lparr>b_views := b_views blog + n\<rparr>), w1)
                 | None \<Rightarrow> (Inl JsError, w1))
         | Some (Page bs) \<Rightarrow> (Inl JsError, incrementViews ''undefined'' None w)
         | Some (Num n) \<Rightarrow> (Inl JsError, incrementViews ''undefined'' None w)
         | None \<Rightarrow>
             (case findFirst id' slug w of
                (None, w1) \<Rightarrow> (Inl NotFound, w1)
              | (Some blog, w1) \<Rightarrow>
                  (if b_isDeleted blog then (Inl NotFound, w1)
                   else (Inr blog,
                         incrementViews (b_id blog) None
                           (safeRedisSet cacheKey CacheTTL_blog (Snapshot blog) w1)))))"

definition getBlogByIdFromDB :: "string \<Rightarrow> world \<Rightarrow> (error + blogs) \<times> world" where
  "getBlogByIdFromDB id' w = getBlog (Some id') None w"

definition getBlogBySlug :: "string \<Rightarrow> world \<Rightarrow> (error + blogs) \<times> world" where
  "getBlogBySlug slug w = getBlog None (Some slug) w"

subsection \<open>Creating, updating and deleting\<close>

text \<open>
  The request of \<^verbatim>\<open>createIntoDb\<close>: the authenticated user, if any, and the body. The row
  the database makes (its identifier, its creation time and the column defaults, which the
  schema fixes and the service does not) is the parameter \<open>fresh\<close>.
\<close>

record request =
  user_id :: "string option"
  body_title :: string
  body_description :: string
  body_slug :: string
  body_tags :: "string list option"
  body_published :: "bool option"

definition createIntoDb :: "blogs \<Rightarrow> request \<Rightarrow> world \<Rightarrow> (error + blogs) \<times> world" where
  "createIntoDb fresh req w =
     (case truthy (user_id req) of
        None \<Rightarrow> (Inl Unauthenticated, w)
      | Some userId \<Rightarrow>
          (case findUnique_slug (body_slug req) w of
             (Some existingBlog, w1) \<Rightarrow> (Inl Conflict, w1)
           | (None, w1) \<Rightarrow>
               (case prisma_create
                       (fresh\<lparr>b_title := body_title req,
                              b_description := body_description req,
                              b_slug := body_slug req,
                              b_tags := (case body_tags req of None \<Rightarrow> [] | Some ts \<Rightarrow> ts),
                              b_published :=
                                (case body_published req of None \<Rightarrow> False | Some p \<Rightarrow> p),
                              b_userId := userId\<rparr>) w1 of
                  (Inl err, w2) \<Rightarrow> (Inl err, w2)
                | (Inr blog, w2) \<Rightarrow>
                    (let w3 = safeRedisSet (CacheKeys_blog (b_id blog)) CacheTTL_blog
                                (Snapshot blog) w2;
                         w4 = safeRedisSet (CacheKeys_blogSlug (b_slug blog)) CacheTTL_blog
                                (Snapshot blog) w3;
                         listKeys = keysOrEmpty ''blogs:all:'' w4;
                         userBlogsKeys = keysOrEmpty (''blogs:user:'' @ userId) w4
                     in (Inr blog, safeRedisDel (listKeys @ userBlogsKeys) w4)))))"

text \<open>
  The \<^verbatim>\<open>data\<close> of an update is \<^verbatim>\<open>Partial<any>\<close>, passed on from the request body as it
  is: any column may be set.
\<close>

record patch =
  p_slug :: "string option"
  p_title :: "string option"
  p_description :: "string option"
  p_tags :: "string list option"
  p_published :: "bool option"
  p_isDeleted :: "bool option"
  p_views :: "int option"
  p_likes :: "int option"

definition orElse :: "'a option \<Rightarrow> 'a \<Rightarrow> 'a" where
  "orElse x d = (case x of None \<Rightarrow> d | Some v \<Rightarrow> v)"

definition applyPatch :: "patch \<Rightarrow> blogs \<Rightarrow> blogs" where
  "applyPatch d b =
     b\<lparr>b_slug := orElse (p_slug d) (b_slug b),
       b_title := orElse (p_title d) (b_title b),
       b_description := orElse (p_description d) (b_description b),
       b_tags := orElse (p_tags d) (b_tags b),
       b_published := orElse (p_published d) (b_published b),
       b_isDeleted := orElse (p_isDeleted d) (b_isDeleted b),
       b_views := orElse (p_views d) (b_views b),
       b_likes := orElse (p_likes d) (b_likes b)\<rparr>"

definition recache :: "string \<Rightarrow> blogs \<Rightarrow> blogs \<Rightarrow> world \<Rightarrow> world" where
  "recache id' existingBlog updatedBlog w =
     (let w1 = invalidateBlogCache id' (Some (b_slug existingBlog)) w;
          w2 = safeRedisSet (CacheKeys_blog id') CacheTTL_blog (Snapshot updatedBlog) w1
      in if b_slug updatedBlog \<noteq> b_slug existingBlog
         then safeRedisSet (CacheKeys_blogSlug (b_slug updatedBlog)) CacheTTL_blog
                (Snapshot updatedBlog) w2
         else w2)"

definition updateIntoDb :: "string \<Rightarrow> patch \<Rightarrow> world \<Rightarrow> (error + blogs) \<times> world" where
  "updateIntoDb id' data w =
     (case findUnique_id id' w of
        (None, w1) \<Rightarrow> (Inl NotFound, w1)
      | (Some existingBlog, w1) \<Rightarrow>
          (if b_isDeleted existingBlog then (Inl NotFound, w1)
           else
             (let (slugExists, w2) =
                    (case truthy (p_slug data) of
                       None \<Rightarrow> (None, w1)
                     | Some s \<Rightarrow>
                         if s \<noteq> b_slug existingBlog then findUnique_slug s w1 else (None, w1))
              in if slugExists \<noteq> None then (Inl Conflict, w2)
                 else case prisma_update id' (Update id') (applyPatch data) w2 of
                        (Inl err, w3) \<Rightarrow> (Inl err, w3)
                      | (Inr updatedBlog, w3) \<Rightarrow>
                          (Inr updatedBlog, recache id' existingBlog updatedBlog w3))))"

definition deleteIntoDb :: "string \<Rightarrow> world \<Rightarrow> (error + string) \<times> world" where
  "deleteIntoDb id' w =
     (case findUnique_id id' w of
        (None, w1) \<Rightarrow> (Inl NotFound, w1)
      | (Some blog, w1) \<Rightarrow>
          (case prisma_delete id' w1 of
             (Inl err, w2) \<Rightarrow> (Inl err, w2)
           | (Inr u, w2) \<Rightarrow>
               (Inr ''Blog deleted successfully'',
                invalidateBlogCache id' (Some (b_slug blog)) w2)))"

definition softDeleteIntoDb :: "string \<Rightarrow> world \<Rightarrow> (error + string) \<times> world" where
  "softDeleteIntoDb id' w =
     (case findUnique_id id' w of
        (None, w1) \<Rightarrow> (Inl NotFound, w1)
      | (Some blog, w1) \<Rightarrow>
          (if b_isDeleted blog then (Inl NotFound, w1)
           else case prisma_update id' (SetDeleted id') (\<lambda>b. b\<lparr>b_isDeleted := True\<rparr>) w1 of
                  (Inl err, w2) \<Rightarrow> (Inl err, w2)
                | (Inr b, w2) \<Rightarrow>
                    (Inr ''Blog soft deleted successfully'',
                     invalidateBlogCache id' (Some (b_slug blog)) w2)))"

subsection \<open>Likes\<close>

text \<open>\<^verbatim>\<open>await redis.incr(key).catch(() => {})\<close>, and the same for \<^verbatim>\<open>decr\<close>.\<close>

definition incrOrIgnore :: "string \<Rightarrow> world \<Rightarrow> world" where
  "incrOrIgnore k w = (case redis_incr k w of Inl err \<Rightarrow> w | Inr (n, w') \<Rightarrow> w')"

definition decrOrIgnore :: "string \<Rightarrow> world \<Rightarrow> world" where
  "decrOrIgnore k w = (case redis_decr k w of Inl err \<Rightarrow> w | Inr (n, w') \<Rightarrow> w')"

definition likeBlog :: "string \<Rightarrow> string \<Rightarrow> world \<Rightarrow> (error + string) \<times> world" where
  "likeBlog blogId userId w =
     (let userLikeKey = CacheKeys_userLike userId blogId
      in if safeRedisGet userLikeKey w \<noteq> None then (Inl AlreadyLiked, w)
         else
           (let w1 = safeRedisSet userLikeKey CacheTTL_userLike (Num 1) w;
                w2 = incrOrIgnore (CacheKeys_likes blogId) w1
            in case prisma_update blogId (IncrLikes blogId 1)
                      (\<lambda>b. b\<lparr>b_likes := b_likes b + 1\<rparr>) w2 of
                 (Inl err, w3) \<Rightarrow> (Inl err, w3)
               | (Inr b, w3) \<Rightarrow>
                   (Inr ''Blog liked successfully'', invalidateBlogCache blogId None w3)))"

definition unlikeBlog :: "string \<Rightarrow> string \<Rightarrow> world \<Rightarrow> (error + string) \<times> world" where
  "unlikeBlog blogId userId w =
     (let userLikeKey = CacheKeys_userLike userId blogId
      in if safeRedisGet userLikeKey w = None then (Inl NotLiked, w)
         else
           (let w1 = safeRedisDel [userLikeKey] w;
                w2 = decrOrIgnore (CacheKeys_likes blogId) w1
            in case prisma_update blogId (IncrLikes blogId (- 1))
                      (\<lambda>b. b\<lparr>b_likes := b_likes b - 1\<rparr>) w2 of
                 (Inl err, w3) \<Rightarrow> (Inl err, w3)
               | (Inr b, w3) \<Rightarrow>
                   (Inr ''Blog unliked successfully'', invalidateBlogCache blogId None w3)))"

subsection \<open>Search by tags\<close>

text \<open>
  \<^verbatim>\<open>tags.sort()\<close> sorts the array it is called on and returns that same array. The caller's
  arrays live in a heap, a map from addresses to contents, and \<^verbatim>\<open>searchByTags\<close> takes the
  address of its argument. The default comparison of \<^verbatim>\<open>sort\<close> is the lexicographic order
  on the code units of the strings, which is the order on \<open>string\<close> here.
\<close>

type_synonym heap = "nat \<Rightarrow> string list"

fun join :: "string list \<Rightarrow> string" where
  "join [] = []"
| "join [x] = x"
| "join (x # y # ys) = x @ '','' @ join (y # ys)"

definition searchKey :: "string list \<Rightarrow> string" where
  "searchKey tags = ''blogs:search:tags:'' @ join (sort tags)"

text \<open>
  \<^verbatim>\<open>findMany\<close> with \<^verbatim>\<open>tags: { hasSome: tags }\<close>, published, not deleted, newest first
  (rows of one creation time in the reverse of the table's order).
\<close>

definition findManyByTags :: "string list \<Rightarrow> world \<Rightarrow> blogs list \<times> world" where
  "findManyByTags tags w =
     (rev (sort_key b_createdAt
        (filter (\<lambda>b. list_ex (\<lambda>t. t \<in> set (b_tags b)) tags \<and> b_published b \<and> \<not> b_isDeleted b)
           (rows w))),
      logged FindMany w)"

definition searchByTags :: "nat \<Rightarrow> heap \<Rightarrow> world \<Rightarrow> (error + blogs list) \<times> heap \<times> world" where
  "searchByTags a h w =
     (let cacheKey = searchKey (h a);
          h' = h(a := sort (h a));
          tags = h' a
      in case safeRedisGet cacheKey w of
           Some (Page bs) \<Rightarrow> (Inr bs, h', w)
         | Some (Snapshot b) \<Rightarrow> (Inl JsError, h', w)
         | Some (Num n) \<Rightarrow> (Inl JsError, h', w)
         | None \<Rightarrow>
             (case findManyByTags tags w of
                (blogs, w1) \<Rightarrow>
                  (Inr blogs, h', safeRedisSet cacheKey CacheTTL_list (Page blogs) w1)))"

section \<open>Observations, call sequences and example worlds\<close>

subsection \<open>Observations\<close>

text \<open>The keys \<^verbatim>\<open>invalidateBlogCache\<close> names itself, before the two patterns.\<close>

definition invalidated :: "string \<Rightarrow> string option \<Rightarrow> string list" where
  "invalidated i sl =
     [CacheKeys_blog i, CacheKeys_trending] @
     (case truthy sl of Some s \<Rightarrow> [CacheKeys_blogSlug s] | None \<Rightarrow> [])"

text \<open>
  No trending snapshot, no listing page (\<^verbatim>\<open>blogs:all:*\<close>) and no per-owner listing
  (\<^verbatim>\<open>blogs:user:*\<close>) is in the cache.
\<close>

definition listingsGone :: "world \<Rightarrow> bool" where
  "listingsGone w \<longleftrightarrow>
     lookup CacheKeys_trending w = None \<and> keysMatching ''blogs:all:'' w = [] \<and>
     keysMatching ''blogs:user:'' w = []"

text \<open>
  A post of which the cache holds no snapshot, reachable or not, and which the store marks
  as deleted.
\<close>

definition hidden :: "string \<Rightarrow> string \<Rightarrow> world \<Rightarrow> bool" where
  "hidden i s w \<longleftrightarrow>
     lookup (CacheKeys_blog i) w = None \<and> lookup (CacheKeys_blogSlug s) w = None \<and>
     map_option b_isDeleted (row i w) = Some True \<and>
     map_option b_isDeleted (rowBySlug s w) = Some True"

text \<open>
  Two readings of a post's view count: the column of its row, and the Redis counter
  \<^verbatim>\<open>blog:views:<id>\<close> (0 when the key is missing), as \<^verbatim>\<open>getBlog\<close> reads it. And the
  like count of the row.
\<close>

definition persistedViews :: "string \<Rightarrow> world \<Rightarrow> int" where
  "persistedViews i w = (case row i w of None \<Rightarrow> 0 | Some b \<Rightarrow> b_views b)"

definition viewCounter :: "string \<Rightarrow> world \<Rightarrow> int" where
  "viewCounter i w = (case redisViews i w of None \<Rightarrow> 0 | Some n \<Rightarrow> n)"

definition persistedLikes :: "string \<Rightarrow> world \<Rightarrow> int" where
  "persistedLikes i w = (case row i w of None \<Rightarrow> 0 | Some b \<Rightarrow> b_likes b)"

subsection \<open>Calls in a row\<close>

text \<open>\<open>recordViews n\<close> is \<open>n\<close> calls of \<^verbatim>\<open>incrementViews(blogId)\<close>, one after the other.\<close>

fun recordViews :: "nat \<Rightarrow> string \<Rightarrow> world \<Rightarrow> world" where
  "recordViews 0 blogId w = w"
| "recordViews (Suc n) blogId w = incrementViews blogId None (recordViews n blogId w)"

text \<open>
  The cache goes down and comes back on its own: \<open>availability d w\<close> is the world \<open>w\<close>
  with the cache down (\<open>d\<close> true) or reachable (\<open>d\<close> false), its entries untouched.
\<close>

definition availability :: "bool \<Rightarrow> world \<Rightarrow> world" where
  "availability d w = w\<lparr>cacheDown := d\<rparr>"

text \<open>
  A sequence of reads of one post, each by its identifier or by its slug, and each with the
  cache down or reachable at the time of the read; the results are collected in order.
\<close>

datatype access = ById | BySlug

fun readAll ::
    "string \<Rightarrow> string \<Rightarrow> (bool \<times> access) list \<Rightarrow> world \<Rightarrow> (error + blogs) list \<times> world" where
  "readAll id' slug [] w = ([], w)"
| "readAll id' slug ((d, ById) # as) w =
     (case getBlogByIdFromDB id' (availability d w) of
        (r, w1) \<Rightarrow> (case readAll id' slug as w1 of (rs, w2) \<Rightarrow> (r # rs, w2)))"
| "readAll id' slug ((d, BySlug) # as) w =
     (case getBlogBySlug slug (availability d w) of
        (r, w1) \<Rightarrow> (case readAll id' slug as w1 of (rs, w2) \<Rightarrow> (r # rs, w2)))"

subsection \<open>Two calls of \<^verbatim>\<open>likeBlog\<close> at once\<close>

text \<open>
  Node runs one handler at a time and switches between handlers at an \<^verbatim>\<open>await\<close>. A call
  of \<^verbatim>\<open>likeBlog\<close> is therefore a sequence of atomic steps, one per awaited action: the
  read of the marker, the write of the marker, the bump of the like counter, the update of
  the row, the invalidation (its own awaits taken as one step). \<open>likeStep\<close> does the step
  a call is at; \<open>interleave\<close> runs two calls of the same arguments under a schedule that
  names, step by step, which of the two moves (\<open>True\<close> for the second).
\<close>

datatype likePc = AtCheck | AtMark | AtCount | AtPersist | AtInvalidate | Returned "error + string"

definition likeStep :: "string \<Rightarrow> string \<Rightarrow> likePc \<Rightarrow> world \<Rightarrow> likePc \<times> world" where
  "likeStep blogId userId pc w =
     (case pc of
        AtCheck \<Rightarrow>
          (if safeRedisGet (CacheKeys_userLike userId blogId) w \<noteq> None
           then (Returned (Inl AlreadyLiked), w) else (AtMark, w))
      | AtMark \<Rightarrow>
          (AtCount, safeRedisSet (CacheKeys_userLike userId blogId) CacheTTL_userLike (Num 1) w)
      | AtCount \<Rightarrow> (AtPersist, incrOrIgnore (CacheKeys_likes blogId) w)
      | AtPersist \<Rightarrow>
          (case prisma_update blogId (IncrLikes blogId 1) (\<lambda>b. b\<lparr>b_likes := b_likes b + 1\<rparr>) w of
             (Inl err, w') \<Rightarrow> (Returned (Inl err), w')
           | (Inr b, w') \<Rightarrow> (AtInvalidate, w'))
      | AtInvalidate \<Rightarrow>
          (Returned (Inr ''Blog liked successfully''), invalidateBlogCache blogId None w)
      | Returned r \<Rightarrow> (Returned r, w))"

fun interleave ::
    "string \<Rightarrow> string \<Rightarrow> bool list \<Rightarrow> likePc \<times> likePc \<times> world \<Rightarrow> likePc \<times> likePc \<times> world" where
  "interleave blogId userId [] c = c"
| "interleave blogId userId (second # sched) (pc1, pc2, w) =
     (if second
      then (case likeStep blogId userId pc2 w of
              (pc2', w') \<Rightarrow> interleave blogId userId sched (pc1, pc2', w'))
      else (case likeStep blogId userId pc1 w of
              (pc1', w') \<Rightarrow> interleave blogId userId sched (pc1', pc2, w')))"

subsection \<open>Example worlds\<close>

definition post1 :: blogs where
  "post1 = \<lparr>b_id = ''p1'', b_slug = ''hello'', b_title = ''Hello'', b_description = ''first'',
     b_tags = [''ts'', ''cache''], b_published = True, b_isDeleted = False, b_userId = ''u1'',
     b_views = 0, b_likes = 0, b_createdAt = 1\<rparr>"

text \<open>One post in the store, an empty cache that is reachable, nothing logged yet.\<close>

definition world0 :: world where
  "world0 = \<lparr>cache = [], cacheDown = False, rows = [post1], dbLog = []\<rparr>"

text \<open>The same world with the cache down.\<close>

definition worldDown :: world where
  "worldDown = world0\<lparr>cacheDown := True\<rparr>"

text \<open>
  A world with a full cache: a listing page, the listing of user \<^verbatim>\<open>u1\<close>, the trending
  snapshot, both snapshots of the post, and the like marker of user \<^verbatim>\<open>u2\<close>.
\<close>

definition busyWorld :: world where
  "busyWorld =
     \<lparr>cache =
        [(''blogs:all:1:10'', (Page [post1], Some 600)),
         (''blogs:user:u1'', (Page [post1], Some 3600)),
         (''blogs:trending'', (Page [post1], Some 300)),
         (''blog:p1'', (Snapshot post1, Some 3600)),
         (''blog:slug:hello'', (Snapshot post1, Some 3600)),
         (''blog:userlike:u2:p1'', (Num 1, Some 2592000))],
      cacheDown = False, rows = [post1], dbLog = []\<rparr>"

text \<open>The world after a first read of the post by its slug.\<close>

definition readBySlug :: world where
  "readBySlug = snd (getBlogBySlug ''hello'' world0)"

text \<open>
  Updates: one that changes nothing, one that sets the title. The world after user
  \<^verbatim>\<open>u1\<close> has liked the post, and the world after the post's like count has then been set
  back to 0 through an update (\<^verbatim>\<open>PUT /:id\<close> with the body \<^verbatim>\<open>{ "likes": 0 }\<close>).
\<close>

definition noPatch :: patch where
  "noPatch = \<lparr>p_slug = None, p_title = None, p_description = None, p_tags = None,
     p_published = None, p_isDeleted = None, p_views = None, p_likes = None\<rparr>"

definition retitle :: patch where
  "retitle = noPatch\<lparr>p_title := Some ''New''\<rparr>"

definition liked :: world where
  "liked = snd (likeBlog ''p1'' ''u1'' world0)"

definition likedThenReset :: world where
  "likedThenReset = snd (updateIntoDb ''p1'' (noPatch\<lparr>p_likes := Some 0\<rparr>) liked)"

text \<open>
  A request of user \<^verbatim>\<open>u1\<close> to create a second post, the row the database would make for
  it, the row as created, and the world after the creation: \<^verbatim>\<open>createIntoDb\<close> has put the
  snapshot in the cache under the primary key and under the slug key.
\<close>

definition request2 :: request where
  "request2 = \<lparr>user_id = Some ''u1'', body_title = ''Second'', body_description = ''more'',
     body_slug = ''second'', body_tags = None, body_published = Some True\<rparr>"

definition fresh2 :: blogs where
  "fresh2 = \<lparr>b_id = ''p2'', b_slug = [], b_title = [], b_description = [], b_tags = [],
     b_published = False, b_isDeleted = False, b_userId = [], b_views = 0, b_likes = 0,
     b_createdAt = 2\<rparr>"

definition post2 :: blogs where
  "post2 = \<lparr>b_id = ''p2'', b_slug = ''second'', b_title = ''Second'', b_description = ''more'',
     b_tags = [], b_published = True, b_isDeleted = False, b_userId = ''u1'', b_views = 0,
     b_likes = 0, b_createdAt = 2\<rparr>"

definition published2 :: world where
  "published2 = snd (createIntoDb fresh2 request2 world0)"

text \<open>
  The second post is soft-deleted while the cache is down, and the cache comes back
  afterwards.
\<close>

definition deletedInOutage :: world where
  "deletedInOutage =
     availability False (snd (softDeleteIntoDb ''p2'' (availability True published2)))"

text \<open>Four tag arrays of a caller, at the addresses 0 to 3.\<close>

definition heap0 :: heap where
  "heap0 = (\<lambda>a. [])(0 := [''a'', ''a''], 1 := [''a''],
     2 := [''ts'', ''cache''], 3 := [''cache'', ''ts''])"

section \<open>Basic facts\<close>

subsection \<open>The log and the cache list\<close>

lemma map_of_filter_fst:
  "map_of (filter (\<lambda>e. P (fst e)) xs) k = (if P k then map_of xs k else None)"
  by (induction xs) auto

lemma keys_after_filter:
  "filter Q (map fst (filter (\<lambda>e. P (fst e)) xs)) = filter P (filter Q (map fst xs))"
  by (induction xs) auto

lemma lookup_logged [simp]: "lookup k (logged c w) = lookup k w"
  by (simp add: lookup_def logged_def)

lemma cache_logged [simp]: "cache (logged c w) = cache w"
  by (simp add: logged_def)

lemma cacheDown_logged [simp]: "cacheDown (logged c w) = cacheDown w"
  by (simp add: logged_def)

lemma rows_logged [simp]: "rows (logged c w) = rows w"
  by (simp add: logged_def)

lemma row_logged [simp]: "row i (logged c w) = row i w"
  by (simp add: row_def)

lemma rowBySlug_logged [simp]: "rowBySlug s (logged c w) = rowBySlug s w"
  by (simp add: rowBySlug_def)

lemma dbLog_logged [simp]: "dbLog (logged c w) = dbLog w @ [c]"
  by (simp add: logged_def)

lemma keysMatching_logged [simp]: "keysMatching p (logged c w) = keysMatching p w"
  by (simp add: keysMatching_def)

subsection \<open>Cache helpers\<close>

lemma safeRedisSet_down [simp]: "cacheDown w \<Longrightarrow> safeRedisSet k t v w = w"
  by (simp add: safeRedisSet_def redis_setex_def)

lemma lookup_store:
  "lookup k (store k' (v, t) w) = (if k = k' then Some v else lookup k w)"
  by (simp add: store_def lookup_def map_of_filter_fst [where P = "\<lambda>x. x \<noteq> k'"])

lemma store_frame [simp]:
  "cacheDown (store k e w) = cacheDown w"
  "rows (store k e w) = rows w"
  "dbLog (store k e w) = dbLog w"
  by (simp_all add: store_def)

lemma row_store [simp]: "row i (store k e w) = row i w"
  by (simp add: row_def)

lemma rowBySlug_store [simp]: "rowBySlug s (store k e w) = rowBySlug s w"
  by (simp add: rowBySlug_def)

lemma keysMatching_store:
  "\<not> startsWith p k \<Longrightarrow> keysMatching p (store k e w) = keysMatching p w"
proof -
  assume no: "\<not> startsWith p k"
  have "filter (\<lambda>x. x \<noteq> k) (filter (startsWith p) ks) = filter (startsWith p) ks" for ks
    using no by (induction ks) auto
  then show ?thesis
    using no
    by (simp add: store_def keysMatching_def keys_after_filter [where P = "\<lambda>x. x \<noteq> k"])
qed

lemma lookup_safeRedisSet:
  "\<not> cacheDown w \<Longrightarrow> lookup k (safeRedisSet k' t v w) = (if k = k' then Some v else lookup k w)"
  by (simp add: safeRedisSet_def redis_setex_def lookup_store)

lemma safeRedisSet_frame [simp]:
  "cacheDown (safeRedisSet k t v w) = cacheDown w"
  "rows (safeRedisSet k t v w) = rows w"
  "dbLog (safeRedisSet k t v w) = dbLog w"
  by (simp_all add: safeRedisSet_def redis_setex_def)

lemma row_safeRedisSet [simp]: "row i (safeRedisSet k t v w) = row i w"
  by (simp add: row_def)

lemma rowBySlug_safeRedisSet [simp]: "rowBySlug s (safeRedisSet k t v w) = rowBySlug s w"
  by (simp add: rowBySlug_def)

lemma safeRedisDel_down [simp]: "cacheDown w \<Longrightarrow> safeRedisDel ks w = w"
  by (simp add: safeRedisDel_def redis_del_def)

lemma lookup_safeRedisDel:
  "\<not> cacheDown w \<Longrightarrow> lookup k (safeRedisDel ks w) = (if k \<in> set ks then None else lookup k w)"
  by (simp add: safeRedisDel_def redis_del_def lookup_def map_of_filter_fst [where P = "\<lambda>x. x \<notin> set ks"])

lemma safeRedisDel_frame [simp]:
  "cacheDown (safeRedisDel ks w) = cacheDown w"
  "rows (safeRedisDel ks w) = rows w"
  "dbLog (safeRedisDel ks w) = dbLog w"
  by (simp_all add: safeRedisDel_def redis_del_def)

lemma row_safeRedisDel [simp]: "row i (safeRedisDel ks w) = row i w"
  by (simp add: row_def)

lemma rowBySlug_safeRedisDel [simp]: "rowBySlug s (safeRedisDel ks w) = rowBySlug s w"
  by (simp add: rowBySlug_def)

lemma keysMatching_safeRedisDel:
  "\<not> cacheDown w \<Longrightarrow>
   keysMatching p (safeRedisDel ks w) = filter (\<lambda>k. k \<notin> set ks) (keysMatching p w)"
  by (simp add: safeRedisDel_def redis_del_def keysMatching_def
        keys_after_filter [where P = "\<lambda>k. k \<notin> set ks"])

lemma keysMatching_safeRedisSet:
  "\<not> startsWith p k \<Longrightarrow> keysMatching p (safeRedisSet k t v w) = keysMatching p w"
  by (simp add: safeRedisSet_def redis_setex_def keysMatching_store)

lemma safeRedisGet_up: "\<not> cacheDown w \<Longrightarrow> safeRedisGet k w = lookup k w"
  by (simp add: safeRedisGet_def redis_get_def)

lemma safeRedisGet_down [simp]: "cacheDown w \<Longrightarrow> safeRedisGet k w = None"
  by (simp add: safeRedisGet_def redis_get_def)

lemma safeRedisGet_absent: "lookup k w = None \<Longrightarrow> safeRedisGet k w = None"
  by (simp add: safeRedisGet_def redis_get_def)

lemma keysOrEmpty_up: "\<not> cacheDown w \<Longrightarrow> keysOrEmpty p w = keysMatching p w"
  by (simp add: keysOrEmpty_def redis_keys_def)

lemma keysOrEmpty_down [simp]: "cacheDown w \<Longrightarrow> keysOrEmpty p w = []"
  by (simp add: keysOrEmpty_def redis_keys_def)

lemma in_keysMatching:
  "k \<in> set (keysMatching p w) \<longleftrightarrow> startsWith p k \<and> lookup k w \<noteq> None"
  by (auto simp add: lookup_def keysMatching_def map_of_eq_None_iff)

subsection \<open>Counters\<close>

lemma lookup_None: "lookup k w = None \<longleftrightarrow> map_of (cache w) k = None"
  by (simp add: lookup_def)

lemma lookup_Some: "lookup k w = Some v \<longleftrightarrow> (\<exists>t. map_of (cache w) k = Some (v, t))"
  by (auto simp add: lookup_def)

lemma redis_add_absent:
  "\<not> cacheDown w \<Longrightarrow> lookup k w = None \<Longrightarrow>
   redis_add d k w = Inr (d, store k (Num d, None) w)"
  by (simp add: redis_add_def lookup_None)

lemma redis_add_present:
  "\<not> cacheDown w \<Longrightarrow> lookup k w = Some (Num n) \<Longrightarrow>
   \<exists>t. redis_add d k w = Inr (n + d, store k (Num (n + d), t) w)"
  by (auto simp add: redis_add_def lookup_Some)

lemma redis_add_down [simp]: "cacheDown w \<Longrightarrow> redis_add d k w = Inl RedisError"
  by (simp add: redis_add_def)

lemma incrOrIgnore_down [simp]: "cacheDown w \<Longrightarrow> incrOrIgnore k w = w"
  by (simp add: incrOrIgnore_def redis_incr_def)

lemma decrOrIgnore_down [simp]: "cacheDown w \<Longrightarrow> decrOrIgnore k w = w"
  by (simp add: decrOrIgnore_def redis_decr_def)

lemma redis_add_frame:
  "redis_add d k w = Inr (n, w') \<Longrightarrow>
   \<not> cacheDown w \<and> cacheDown w' = cacheDown w \<and> rows w' = rows w \<and> dbLog w' = dbLog w \<and>
   (\<forall>k'. k' \<noteq> k \<longrightarrow> lookup k' w' = lookup k' w) \<and>
   (\<forall>p. \<not> startsWith p k \<longrightarrow> keysMatching p w' = keysMatching p w)"
  by (auto simp add: redis_add_def lookup_store keysMatching_store
        split: if_splits option.splits cval.splits prod.splits)

lemma incrOrIgnore_frame [simp]:
  "cacheDown (incrOrIgnore k w) = cacheDown w"
  "rows (incrOrIgnore k w) = rows w"
  "dbLog (incrOrIgnore k w) = dbLog w"
  by (auto simp add: incrOrIgnore_def redis_incr_def dest: redis_add_frame split: sum.splits)

lemma decrOrIgnore_frame [simp]:
  "cacheDown (decrOrIgnore k w) = cacheDown w"
  "rows (decrOrIgnore k w) = rows w"
  "dbLog (decrOrIgnore k w) = dbLog w"
  by (auto simp add: decrOrIgnore_def redis_decr_def dest: redis_add_frame split: sum.splits)

lemma lookup_incrOrIgnore: "k' \<noteq> k \<Longrightarrow> lookup k' (incrOrIgnore k w) = lookup k' w"
  by (auto simp add: incrOrIgnore_def redis_incr_def dest: redis_add_frame split: sum.splits)

lemma lookup_decrOrIgnore: "k' \<noteq> k \<Longrightarrow> lookup k' (decrOrIgnore k w) = lookup k' w"
  by (auto simp add: decrOrIgnore_def redis_decr_def dest: redis_add_frame split: sum.splits)

lemma keysMatching_incrOrIgnore:
  "\<not> startsWith p k \<Longrightarrow> keysMatching p (incrOrIgnore k w) = keysMatching p w"
  by (auto simp add: incrOrIgnore_def redis_incr_def dest: redis_add_frame split: sum.splits)

lemma keysMatching_decrOrIgnore:
  "\<not> startsWith p k \<Longrightarrow> keysMatching p (decrOrIgnore k w) = keysMatching p w"
  by (auto simp add: decrOrIgnore_def redis_decr_def dest: redis_add_frame split: sum.splits)

lemma row_incrOrIgnore [simp]: "row i (incrOrIgnore k w) = row i w"
  by (simp add: row_def)

lemma row_decrOrIgnore [simp]: "row i (decrOrIgnore k w) = row i w"
  by (simp add: row_def)

subsection \<open>Rows\<close>

lemma row_id: "row i w = Some b \<Longrightarrow> b_id b = i"
  by (auto simp add: row_def find_Some_iff)

lemma find_map_replace:
  "find (\<lambda>r. b_id r = i) rs = Some b \<Longrightarrow> b_id b' = i \<Longrightarrow>
   find (\<lambda>r. b_id r = i) (map (\<lambda>r. if b_id r = i then b' else r) rs) = Some b'"
  by (induction rs) (auto split: if_splits)

lemma find_map_other:
  "b_id b' = i \<Longrightarrow> j \<noteq> i \<Longrightarrow>
   find (\<lambda>r. b_id r = j) (map (\<lambda>r. if b_id r = i then b' else r) rs) = find (\<lambda>r. b_id r = j) rs"
  by (induction rs) auto

lemma row_setRow: "row i w = Some b \<Longrightarrow> b_id b' = i \<Longrightarrow> row i (setRow i b' w) = Some b'"
  by (simp add: row_def setRow_def find_map_replace)

lemma row_setRow_other: "b_id b' = i \<Longrightarrow> j \<noteq> i \<Longrightarrow> row j (setRow i b' w) = row j w"
  by (simp add: row_def setRow_def find_map_other)

lemma setRow_frame [simp]:
  "cache (setRow i b w) = cache w"
  "cacheDown (setRow i b w) = cacheDown w"
  "dbLog (setRow i b w) = dbLog w"
  by (simp_all add: setRow_def)

lemma lookup_setRow [simp]: "lookup k (setRow i b w) = lookup k w"
  by (simp add: lookup_def)

lemma keysMatching_setRow [simp]: "keysMatching p (setRow i b w) = keysMatching p w"
  by (simp add: keysMatching_def)

lemma prisma_update_ok:
  "row i w = Some b \<Longrightarrow> b_slug (f b) = b_slug b \<Longrightarrow>
   prisma_update i c f w = (Inr (f b), logged c (setRow i (f b) w))"
  by (simp add: prisma_update_def)

lemma prisma_update_missing:
  "row i w = None \<Longrightarrow> prisma_update i c f w = (Inl PrismaError, logged c w)"
  by (simp add: prisma_update_def)

subsection \<open>Cache keys do not clash where it matters\<close>

lemma blog_not_listing [simp]:
  "\<not> startsWith ''blogs:all:'' (CacheKeys_blog i)"
  "\<not> startsWith ''blogs:user:'' (CacheKeys_blog i)"
  "CacheKeys_blog i \<noteq> CacheKeys_trending"
  by (simp_all add: startsWith_def CacheKeys_blog_def CacheKeys_trending_def)

lemma blogSlug_not_listing [simp]:
  "\<not> startsWith ''blogs:all:'' (CacheKeys_blogSlug s)"
  "\<not> startsWith ''blogs:user:'' (CacheKeys_blogSlug s)"
  "CacheKeys_blogSlug s \<noteq> CacheKeys_trending"
  by (simp_all add: startsWith_def CacheKeys_blogSlug_def CacheKeys_trending_def)

lemma trending_not_listing [simp]:
  "\<not> startsWith ''blogs:all:'' CacheKeys_trending"
  "\<not> startsWith ''blogs:user:'' CacheKeys_trending"
  by (simp_all add: startsWith_def CacheKeys_trending_def)

lemma views_not_listing [simp]:
  "\<not> startsWith ''blogs:all:'' (CacheKeys_views i)"
  "\<not> startsWith ''blogs:user:'' (CacheKeys_views i)"
  "CacheKeys_views i \<noteq> CacheKeys_trending"
  by (simp_all add: startsWith_def CacheKeys_views_def CacheKeys_trending_def)

lemma likes_not_listing [simp]:
  "\<not> startsWith ''blogs:all:'' (CacheKeys_likes i)"
  "\<not> startsWith ''blogs:user:'' (CacheKeys_likes i)"
  "CacheKeys_likes i \<noteq> CacheKeys_trending"
  by (simp_all add: startsWith_def CacheKeys_likes_def CacheKeys_trending_def)

lemma userLike_not_listing [simp]:
  "\<not> startsWith ''blogs:all:'' (CacheKeys_userLike u i)"
  "\<not> startsWith ''blogs:user:'' (CacheKeys_userLike u i)"
  "CacheKeys_userLike u i \<noteq> CacheKeys_trending"
  by (simp_all add: startsWith_def CacheKeys_userLike_def CacheKeys_trending_def)

lemma views_not_blog [simp]: "CacheKeys_views i \<noteq> CacheKeys_blog i"
proof
  assume "CacheKeys_views i = CacheKeys_blog i"
  then have "length (CacheKeys_views i) = length (CacheKeys_blog i)" by simp
  then show False by (simp add: CacheKeys_views_def CacheKeys_blog_def)
qed

lemma userLike_not_blog [simp]: "CacheKeys_userLike u i \<noteq> CacheKeys_blog i"
proof
  assume "CacheKeys_userLike u i = CacheKeys_blog i"
  then have "length (CacheKeys_userLike u i) = length (CacheKeys_blog i)" by simp
  then show False by (simp add: CacheKeys_userLike_def CacheKeys_blog_def)
qed

lemma userLike_not_likes [simp]: "CacheKeys_userLike u i \<noteq> CacheKeys_likes j"
  by (simp add: CacheKeys_userLike_def CacheKeys_likes_def)

lemma likes_not_blog [simp]: "CacheKeys_likes i \<noteq> CacheKeys_blog i"
proof
  assume "CacheKeys_likes i = CacheKeys_blog i"
  then have "length (CacheKeys_likes i) = length (CacheKeys_blog i)" by simp
  then show False by (simp add: CacheKeys_likes_def CacheKeys_blog_def)
qed

lemma blogSlug_inj [simp]: "CacheKeys_blogSlug s = CacheKeys_blogSlug s' \<longleftrightarrow> s = s'"
  by (simp add: CacheKeys_blogSlug_def)

lemma blog_inj [simp]: "CacheKeys_blog i = CacheKeys_blog j \<longleftrightarrow> i = j"
  by (simp add: CacheKeys_blog_def)

lemma blogSlug_blog: "CacheKeys_blogSlug s = CacheKeys_blog i \<longleftrightarrow> i = ''slug:'' @ s"
  by (auto simp add: CacheKeys_blogSlug_def CacheKeys_blog_def)

subsection \<open>Invalidation\<close>

lemma invalidateBlogCache_down [simp]: "cacheDown w \<Longrightarrow> invalidateBlogCache i sl w = w"
  by (simp add: invalidateBlogCache_def)

lemma invalidateBlogCache_frame [simp]:
  "cacheDown (invalidateBlogCache i sl w) = cacheDown w"
  "rows (invalidateBlogCache i sl w) = rows w"
  "dbLog (invalidateBlogCache i sl w) = dbLog w"
  by (simp_all add: invalidateBlogCache_def Let_def)

lemma row_invalidateBlogCache [simp]: "row j (invalidateBlogCache i sl w) = row j w"
  by (simp add: row_def)

lemma rowBySlug_invalidateBlogCache [simp]:
  "rowBySlug s (invalidateBlogCache i sl w) = rowBySlug s w"
  by (simp add: rowBySlug_def)

lemma lookup_invalidateBlogCache:
  "\<not> cacheDown w \<Longrightarrow>
   lookup k (invalidateBlogCache i sl w) =
     (if k \<in> set (invalidated i sl) \<or> startsWith ''blogs:all:'' k \<or> startsWith ''blogs:user:'' k
      then None else lookup k w)"
  by (auto simp add: invalidateBlogCache_def invalidated_def Let_def lookup_safeRedisDel
        keysOrEmpty_up in_keysMatching)

lemma keysMatching_invalidateBlogCache:
  "\<not> cacheDown w \<Longrightarrow>
   keysMatching ''blogs:all:'' (invalidateBlogCache i sl w) = [] \<and>
   keysMatching ''blogs:user:'' (invalidateBlogCache i sl w) = []"
  by (auto simp add: invalidateBlogCache_def Let_def keysMatching_safeRedisDel keysOrEmpty_up
        filter_empty_conv)

section \<open>Search by tags: the argument is sorted in place\<close>

text \<open>
  Claim C10. \<^verbatim>\<open>searchByTags\<close> mutates its input: whatever the tag array, the cache and the
  store are, after the call the array at the caller's address holds the sorted tags, and
  every other array of the heap is as it was. Anyone who holds the same address sees the
  reordering.
\<close>

theorem searchByTags_sorts_argument_in_place:
  "fst (snd (searchByTags a h w)) = h(a := sort (h a))"
  by (simp add: searchByTags_def findManyByTags_def Let_def split: option.splits cval.splits)

section \<open>Liking twice\<close>

lemma like_first:
  assumes "\<not> cacheDown w" "lookup (CacheKeys_userLike userId blogId) w = None"
    "row blogId w = Some b"
  shows "likeBlog blogId userId w =
    (Inr ''Blog liked successfully'',
     invalidateBlogCache blogId None
       (logged (IncrLikes blogId 1)
         (setRow blogId (b\<lparr>b_likes := b_likes b + 1\<rparr>)
           (incrOrIgnore (CacheKeys_likes blogId)
             (safeRedisSet (CacheKeys_userLike userId blogId) CacheTTL_userLike (Num 1) w)))))"
  using assms by (simp add: likeBlog_def Let_def safeRedisGet_up prisma_update_ok)

text \<open>
  Claim C5, as stated, fails when the cache is down. The read of the marker then answers
  \<^verbatim>\<open>null\<close> and the write of the marker is swallowed, so the second \<^verbatim>\<open>likeBlog\<close> succeeds
  like the first, and the persisted like count goes from 0 to 2.
\<close>

theorem likeBlog_twice_in_outage:
  "lookup (CacheKeys_userLike ''u1'' ''p1'') worldDown = None \<and>
   persistedLikes ''p1'' worldDown = 0 \<and>
   fst (likeBlog ''p1'' ''u1'' worldDown) = Inr ''Blog liked successfully'' \<and>
   fst (likeBlog ''p1'' ''u1'' (snd (likeBlog ''p1'' ''u1'' worldDown))) =
     Inr ''Blog liked successfully'' \<and>
   persistedLikes ''p1''
     (snd (likeBlog ''p1'' ''u1'' (snd (likeBlog ''p1'' ''u1'' worldDown)))) = 2"
  by code_simp

text \<open>
  Claim C5, amended. With the cache reachable, the post in the store and no like marker for
  the pair, the first \<^verbatim>\<open>likeBlog\<close> succeeds, a second one right after it fails with
  \<open>AlreadyLiked\<close> and changes nothing, and over the two calls the persisted like
  count has gone up by exactly 1, through exactly one increment issued to the store.
\<close>

theorem likeBlog_twice:
  assumes "\<not> cacheDown w" "lookup (CacheKeys_userLike userId blogId) w = None"
    "row blogId w = Some b"
  shows "fst (likeBlog blogId userId w) = Inr ''Blog liked successfully'' \<and>
    likeBlog blogId userId (snd (likeBlog blogId userId w)) =
      (Inl AlreadyLiked, snd (likeBlog blogId userId w)) \<and>
    map_option b_likes (row blogId (snd (likeBlog blogId userId w))) = Some (b_likes b + 1) \<and>
    dbLog (snd (likeBlog blogId userId w)) = dbLog w @ [IncrLikes blogId 1]"
proof -
  let ?w1 = "snd (likeBlog blogId userId w)"
  note first = like_first [OF assms]
  have id: "b_id b = blogId" using assms(3) by (rule row_id)
  have marker: "lookup (CacheKeys_userLike userId blogId) ?w1 = Some (Num 1)"
    using assms(1)
    by (simp add: first lookup_invalidateBlogCache invalidated_def truthy_def
          lookup_incrOrIgnore lookup_safeRedisSet)
  have up1: "\<not> cacheDown ?w1" using assms(1) by (simp add: first)
  have second: "likeBlog blogId userId ?w1 = (Inl AlreadyLiked, ?w1)"
    using marker up1 by (simp add: likeBlog_def Let_def safeRedisGet_up)
  have likes: "map_option b_likes (row blogId ?w1) = Some (b_likes b + 1)"
    using assms(3) id by (simp add: first row_setRow)
  have log: "dbLog ?w1 = dbLog w @ [IncrLikes blogId 1]"
    by (simp add: first)
  show ?thesis using second likes log by (simp add: first)
qed

theorem likeBlog_twice_witness:
  "fst (likeBlog ''p1'' ''u1'' world0) = Inr ''Blog liked successfully'' \<and>
   fst (likeBlog ''p1'' ''u1'' (snd (likeBlog ''p1'' ''u1'' world0))) = Inl AlreadyLiked \<and>
   map_option b_likes (row ''p1'' (snd (likeBlog ''p1'' ''u1'' world0))) = Some 1"
proof -
  have h1: "\<not> cacheDown world0" by (simp add: world0_def)
  have h2: "lookup (CacheKeys_userLike ''u1'' ''p1'') world0 = None"
    by (simp add: world0_def lookup_def)
  have h3: "row ''p1'' world0 = Some post1" by (simp add: world0_def row_def post1_def)
  show ?thesis using likeBlog_twice [OF h1 h2 h3] by (simp add: post1_def)
qed

section \<open>Search by tags: the cache key\<close>

lemma sort_of_permutation: "mset xs = mset ys \<Longrightarrow> sort xs = sort (ys :: string list)"
  by (rule properties_for_sort) simp_all

lemma sort_sort [simp]: "sort (sort xs) = sort (xs :: string list)"
  by (simp add: sorted_sort_id)

lemma searchKey_aa: "searchKey [''a'', ''a''] = ''blogs:search:tags:a,a''"
  by code_simp

lemma searchKey_a: "searchKey [''a''] = ''blogs:search:tags:a''"
  by code_simp

text \<open>
  Claim C7, as stated, fails: the key is built from the sorted tags, and nothing removes
  duplicates. The lists \<^verbatim>\<open>["a","a"]\<close> and \<^verbatim>\<open>["a"]\<close> are equal as sets and get two
  different keys.
\<close>

theorem searchKey_keeps_duplicates:
  "set (heap0 0) = set (heap0 1) \<and> searchKey (heap0 0) \<noteq> searchKey (heap0 1)"
  by (simp add: heap0_def searchKey_aa searchKey_a)

lemma searchByTags_again:
  assumes "sort (h b) = sort (h a)"
  shows "(case searchByTags a h w of
            (r1, h1, w1) \<Rightarrow>
              (case searchByTags b h1 w1 of
                 (r2, h2, w2) \<Rightarrow> r2 = r1 \<and> (\<not> cacheDown w \<longrightarrow> dbLog w2 = dbLog w1)))"
proof -
  define h1 where "h1 = h(a := sort (h a))"
  have key: "searchKey (h1 b) = searchKey (h a)"
    using assms by (simp add: searchKey_def h1_def)
  have srt: "sort (h1 b) = sort (h a)" "h1 a = sort (h a)"
    using assms by (simp_all add: h1_def)
  have first: "searchByTags a h w =
    (case safeRedisGet (searchKey (h a)) w of
       Some (Page bs) \<Rightarrow> (Inr bs, h1, w)
     | Some (Snapshot b) \<Rightarrow> (Inl JsError, h1, w)
     | Some (Num n) \<Rightarrow> (Inl JsError, h1, w)
     | None \<Rightarrow>
         (Inr (fst (findManyByTags (sort (h a)) w)), h1,
          safeRedisSet (searchKey (h a)) CacheTTL_list (Page (fst (findManyByTags (sort (h a)) w)))
            (logged FindMany w)))"
    by (simp add: searchByTags_def Let_def h1_def findManyByTags_def
          split: option.splits cval.splits)
  have second: "fst (searchByTags b h1 w') =
    (case safeRedisGet (searchKey (h a)) w' of
       Some (Page bs) \<Rightarrow> Inr bs
     | Some (Snapshot b) \<Rightarrow> Inl JsError
     | Some (Num n) \<Rightarrow> Inl JsError
     | None \<Rightarrow> Inr (fst (findManyByTags (sort (h a)) w')))" for w'
    using key srt
    by (simp add: searchByTags_def Let_def findManyByTags_def fun_upd_same
          split: option.splits cval.splits del: fun_upd_apply)
  have log: "safeRedisGet (searchKey (h a)) w' \<noteq> None \<Longrightarrow>
      dbLog (snd (snd (searchByTags b h1 w'))) = dbLog w'" for w'
    using key
    by (cases "safeRedisGet (searchKey (h a)) w'")
       (simp_all add: searchByTags_def Let_def split: cval.splits del: fun_upd_apply)
  have same: "fst (findManyByTags ts (safeRedisSet k t v (logged c w))) = fst (findManyByTags ts w)"
    "fst (findManyByTags ts (logged c w)) = fst (findManyByTags ts w)"
    for ts k t v c
    by (simp_all add: findManyByTags_def)
  show ?thesis
  proof (cases "cacheDown w")
    case True
    then show ?thesis
      by (simp add: first second same split_beta)
  next
    case False
    show ?thesis
    proof (cases "lookup (searchKey (h a)) w")
      case None
      then show ?thesis
        using False
        by (simp add: first second log same split_beta safeRedisGet_up lookup_safeRedisSet)
    next
      case (Some v)
      then show ?thesis
        using False
        by (cases v) (simp_all add: first second log split_beta safeRedisGet_up)
    qed
  qed
qed

text \<open>
  Claim C7, amended. For every pair of tag arrays that are permutations of each other (the
  same tags with the same multiplicities), \<^verbatim>\<open>searchByTags\<close> computes the same cache key,
  a function of the sorted list; a call with the one right after a call with the other
  returns the identical result, and when the cache is reachable the second call issues no
  query to the store: it is served from the entry the first call read or wrote.
\<close>

theorem searchKey_of_permutation:
  assumes "mset (h a) = mset (h b)"
  shows "searchKey (h a) = searchKey (h b) \<and>
    (case searchByTags a h w of
       (r1, h1, w1) \<Rightarrow>
         (case searchByTags b h1 w1 of
            (r2, h2, w2) \<Rightarrow> r2 = r1 \<and> (\<not> cacheDown w \<longrightarrow> dbLog w2 = dbLog w1)))"
proof -
  have s: "sort (h b) = sort (h a)"
    by (rule sort_of_permutation) (simp add: assms)
  have k: "searchKey (h a) = searchKey (h b)" using s by (simp add: searchKey_def)
  show ?thesis using k searchByTags_again [OF s, of w] by (rule conjI)
qed

theorem searchKey_of_permutation_witness:
  "mset (heap0 2) = mset (heap0 3) \<and>
   (searchKey (heap0 2) = searchKey (heap0 3) \<and>
    (case searchByTags 2 heap0 world0 of
       (r1, h1, w1) \<Rightarrow>
         (case searchByTags 3 h1 w1 of
            (r2, h2, w2) \<Rightarrow> r2 = r1 \<and> (\<not> cacheDown world0 \<longrightarrow> dbLog w2 = dbLog w1))))"
proof -
  have h: "mset (heap0 2) = mset (heap0 3)" by (simp add: heap0_def)
  show ?thesis using h searchKey_of_permutation [OF h, of world0] by (rule conjI)
qed

section \<open>Unliking\<close>

lemma unlike_ok:
  assumes "\<not> cacheDown w" "lookup (CacheKeys_userLike userId blogId) w \<noteq> None"
    "row blogId w = Some b"
  shows "unlikeBlog blogId userId w =
    (Inr ''Blog unliked successfully'',
     invalidateBlogCache blogId None
       (logged (IncrLikes blogId (- 1))
         (setRow blogId (b\<lparr>b_likes := b_likes b - 1\<rparr>)
           (decrOrIgnore (CacheKeys_likes blogId)
             (safeRedisDel [CacheKeys_userLike userId blogId] w)))))"
  using assms by (simp add: unlikeBlog_def Let_def safeRedisGet_up prisma_update_ok)

text \<open>
  Claim C6, as stated, fails in one point: the decrement is the store's plain
  \<^verbatim>\<open>{ decrement: 1 }\<close>, with no floor. User \<^verbatim>\<open>u1\<close> likes the post, an update sets the
  like count back to 0, the marker is still there, and \<^verbatim>\<open>unlikeBlog\<close> takes the persisted
  count to -1.
\<close>

theorem unlikeBlog_floor_counterexample:
  "lookup (CacheKeys_userLike ''u1'' ''p1'') likedThenReset = Some (Num 1) \<and>
   map_option b_likes (row ''p1'' likedThenReset) = Some 0 \<and>
   fst (unlikeBlog ''p1'' ''u1'' likedThenReset) = Inr ''Blog unliked successfully'' \<and>
   map_option b_likes (row ''p1'' (snd (unlikeBlog ''p1'' ''u1'' likedThenReset))) = Some (- 1)"
  by code_simp

text \<open>
  Claim C6, amended. Without a like marker for the pair, \<^verbatim>\<open>unlikeBlog\<close> fails with
  \<open>NotLiked\<close> and leaves the whole world, the store included, as it was. With the marker
  (cache reachable, post in the store) it succeeds, deletes the marker, lowers the persisted
  like count by exactly 1 through one decrement issued to the store, whatever the count was,
  and removes the post's primary snapshot from the cache.
\<close>

theorem unlikeBlog_effect:
  "(lookup (CacheKeys_userLike userId blogId) w = None \<longrightarrow>
      unlikeBlog blogId userId w = (Inl NotLiked, w)) \<and>
   (\<not> cacheDown w \<and> lookup (CacheKeys_userLike userId blogId) w \<noteq> None \<and>
    row blogId w = Some b \<longrightarrow>
      fst (unlikeBlog blogId userId w) = Inr ''Blog unliked successfully'' \<and>
      lookup (CacheKeys_userLike userId blogId) (snd (unlikeBlog blogId userId w)) = None \<and>
      row blogId (snd (unlikeBlog blogId userId w)) = Some (b\<lparr>b_likes := b_likes b - 1\<rparr>) \<and>
      dbLog (snd (unlikeBlog blogId userId w)) = dbLog w @ [IncrLikes blogId (- 1)] \<and>
      lookup (CacheKeys_blog blogId) (snd (unlikeBlog blogId userId w)) = None)"
proof (intro conjI impI)
  assume "lookup (CacheKeys_userLike userId blogId) w = None"
  then show "unlikeBlog blogId userId w = (Inl NotLiked, w)"
    by (simp add: unlikeBlog_def Let_def safeRedisGet_absent)
next
  assume a: "\<not> cacheDown w \<and> lookup (CacheKeys_userLike userId blogId) w \<noteq> None \<and>
    row blogId w = Some b"
  then have up: "\<not> cacheDown w" and r: "row blogId w = Some b" by simp_all
  from a have run: "unlikeBlog blogId userId w =
    (Inr ''Blog unliked successfully'',
     invalidateBlogCache blogId None
       (logged (IncrLikes blogId (- 1))
         (setRow blogId (b\<lparr>b_likes := b_likes b - 1\<rparr>)
           (decrOrIgnore (CacheKeys_likes blogId)
             (safeRedisDel [CacheKeys_userLike userId blogId] w)))))"
    by (simp add: unlike_ok)
  have id: "b_id b = blogId" using r by (rule row_id)
  show "fst (unlikeBlog blogId userId w) = Inr ''Blog unliked successfully''"
    by (simp add: run)
  show "lookup (CacheKeys_userLike userId blogId) (snd (unlikeBlog blogId userId w)) = None"
    using up
    by (simp add: run lookup_invalidateBlogCache invalidated_def truthy_def
          lookup_decrOrIgnore lookup_safeRedisDel)
  show "row blogId (snd (unlikeBlog blogId userId w)) = Some (b\<lparr>b_likes := b_likes b - 1\<rparr>)"
    using r id by (simp add: run row_setRow)
  show "dbLog (snd (unlikeBlog blogId userId w)) = dbLog w @ [IncrLikes blogId (- 1)]"
    by (simp add: run)
  show "lookup (CacheKeys_blog blogId) (snd (unlikeBlog blogId userId w)) = None"
    using up by (simp add: run lookup_invalidateBlogCache invalidated_def)
qed

theorem unlikeBlog_effect_witness:
  "lookup (CacheKeys_userLike ''u1'' ''p1'') world0 = None \<and>
   unlikeBlog ''p1'' ''u1'' world0 = (Inl NotLiked, world0) \<and>
   \<not> cacheDown liked \<and> lookup (CacheKeys_userLike ''u1'' ''p1'') liked \<noteq> None \<and>
   row ''p1'' liked = Some (post1\<lparr>b_likes := 1\<rparr>) \<and>
   fst (unlikeBlog ''p1'' ''u1'' liked) = Inr ''Blog unliked successfully'' \<and>
   lookup (CacheKeys_userLike ''u1'' ''p1'') (snd (unlikeBlog ''p1'' ''u1'' liked)) = None \<and>
   map_option b_likes (row ''p1'' (snd (unlikeBlog ''p1'' ''u1'' liked))) = Some 0"
proof -
  have h0: "lookup (CacheKeys_userLike ''u1'' ''p1'') world0 = None" by code_simp
  have h1: "\<not> cacheDown liked" by code_simp
  have h2: "lookup (CacheKeys_userLike ''u1'' ''p1'') liked \<noteq> None" by code_simp
  have h3: "row ''p1'' liked = Some (post1\<lparr>b_likes := 1\<rparr>)" by code_simp
  show ?thesis
    using h0 h1 h2 h3
      unlikeBlog_effect [of "''u1''" "''p1''" world0 post1]
      unlikeBlog_effect [of "''u1''" "''p1''" liked "post1\<lparr>b_likes := 1\<rparr>"]
    by simp
qed

section \<open>The cache is down\<close>

lemma incrementViews_down [simp]: "cacheDown w \<Longrightarrow> incrementViews blogId None w = w"
  by (simp add: incrementViews_def truthy_def redis_incr_def)

lemma getBlog_by_id_down:
  assumes "cacheDown w" "row i w = Some b" "\<not> b_isDeleted b" "i \<noteq> []"
  shows "getBlogByIdFromDB i w = (Inr b, logged (FindById i) w)"
  using assms
  by (simp add: getBlogByIdFromDB_def getBlog_def findFirst_def truthy_def)

lemma createIntoDb_down:
  assumes "cacheDown w" "truthy (user_id req) = Some u" "rowBySlug (body_slug req) w = None"
    "row (b_id fresh) w = None"
  shows "createIntoDb fresh req w =
    (Inr (fresh\<lparr>b_title := body_title req, b_description := body_description req,
             b_slug := body_slug req, b_tags := orElse (body_tags req) [],
             b_published := orElse (body_published req) False, b_userId := u\<rparr>),
     logged (Create (b_id fresh))
       (logged (FindBySlug (body_slug req)) w
          \<lparr>rows := rows w @
             [fresh\<lparr>b_title := body_title req, b_description := body_description req,
                b_slug := body_slug req, b_tags := orElse (body_tags req) [],
                b_published := orElse (body_published req) False, b_userId := u\<rparr>]\<rparr>))"
  using assms
  by (simp add: createIntoDb_def findUnique_slug_def prisma_create_def Let_def orElse_def)

lemma likeBlog_down:
  assumes "cacheDown w" "row blogId w = Some b"
  shows "likeBlog blogId userId w =
    (Inr ''Blog liked successfully'',
     logged (IncrLikes blogId 1) (setRow blogId (b\<lparr>b_likes := b_likes b + 1\<rparr>) w))"
  using assms by (simp add: likeBlog_def Let_def prisma_update_ok)


text \<open>
  Claim C8. When every command of the cache raises, \<^verbatim>\<open>getBlogByIdFromDB\<close> of a post that
  is in the store and not soft-deleted returns the stored row; \<^verbatim>\<open>createIntoDb\<close> of an
  authenticated user with a slug no row holds returns the new row, which is then in the
  store; and \<^verbatim>\<open>likeBlog\<close> of a post in the store succeeds and raises the persisted like
  count by 1. None of them touches the cache, and no cache error reaches the caller.
\<close>

theorem cache_down_still_serves:
  assumes "cacheDown w"
  shows
   "(row i w = Some b \<and> \<not> b_isDeleted b \<and> i \<noteq> [] \<longrightarrow>
       fst (getBlogByIdFromDB i w) = Inr b \<and>
       cache (snd (getBlogByIdFromDB i w)) = cache w \<and>
       rows (snd (getBlogByIdFromDB i w)) = rows w) \<and>
    (truthy (user_id req) = Some u \<and> rowBySlug (body_slug req) w = None \<and>
     row (b_id fresh) w = None \<longrightarrow>
       fst (createIntoDb fresh req w) =
         Inr (fresh\<lparr>b_title := body_title req, b_description := body_description req,
                  b_slug := body_slug req, b_tags := orElse (body_tags req) [],
                  b_published := orElse (body_published req) False, b_userId := u\<rparr>) \<and>
       rows (snd (createIntoDb fresh req w)) =
         rows w @
         [fresh\<lparr>b_title := body_title req, b_description := body_description req,
                b_slug := body_slug req, b_tags := orElse (body_tags req) [],
                b_published := orElse (body_published req) False, b_userId := u\<rparr>] \<and>
       cache (snd (createIntoDb fresh req w)) = cache w) \<and>
    (row blogId w = Some b' \<longrightarrow>
       fst (likeBlog blogId userId w) = Inr ''Blog liked successfully'' \<and>
       row blogId (snd (likeBlog blogId userId w)) = Some (b'\<lparr>b_likes := b_likes b' + 1\<rparr>) \<and>
       cache (snd (likeBlog blogId userId w)) = cache w)"
proof (intro conjI impI)
  assume a: "row i w = Some b \<and> \<not> b_isDeleted b \<and> i \<noteq> []"
  then have run: "getBlogByIdFromDB i w = (Inr b, logged (FindById i) w)"
    using assms by (simp add: getBlog_by_id_down)
  show "fst (getBlogByIdFromDB i w) = Inr b" by (simp add: run)
  show "cache (snd (getBlogByIdFromDB i w)) = cache w" by (simp add: run)
  show "rows (snd (getBlogByIdFromDB i w)) = rows w" by (simp add: run)
next
  let ?new = "fresh\<lparr>b_title := body_title req, b_description := body_description req,
                  b_slug := body_slug req, b_tags := orElse (body_tags req) [],
                  b_published := orElse (body_published req) False, b_userId := u\<rparr>"
  assume a: "truthy (user_id req) = Some u \<and> rowBySlug (body_slug req) w = None \<and>
     row (b_id fresh) w = None"
  then have run: "createIntoDb fresh req w =
     (Inr ?new,
      logged (Create (b_id fresh))
        (logged (FindBySlug (body_slug req)) w\<lparr>rows := rows w @ [?new]\<rparr>))"
    using assms by (simp add: createIntoDb_down)
  show "fst (createIntoDb fresh req w) = Inr ?new" by (simp add: run)
  show "rows (snd (createIntoDb fresh req w)) = rows w @ [?new]" by (simp add: run logged_def)
  show "cache (snd (createIntoDb fresh req w)) = cache w" by (simp add: run logged_def)
next
  assume r: "row blogId w = Some b'"
  then have run: "likeBlog blogId userId w =
    (Inr ''Blog liked successfully'',
     logged (IncrLikes blogId 1) (setRow blogId (b'\<lparr>b_likes := b_likes b' + 1\<rparr>) w))"
    using assms by (simp add: likeBlog_down)
  have id: "b_id b' = blogId" using r by (rule row_id)
  show "fst (likeBlog blogId userId w) = Inr ''Blog liked successfully''" by (simp add: run)
  show "row blogId (snd (likeBlog blogId userId w)) = Some (b'\<lparr>b_likes := b_likes b' + 1\<rparr>)"
    using r id by (simp add: run row_setRow)
  show "cache (snd (likeBlog blogId userId w)) = cache w" by (simp add: run)
qed

theorem cache_down_still_serves_witness:
  "cacheDown worldDown \<and>
   fst (getBlogByIdFromDB ''p1'' worldDown) = Inr post1 \<and>
   map_option b_slug (row ''p2'' (snd (createIntoDb fresh2 request2 worldDown))) = Some ''second'' \<and>
   length (rows (snd (createIntoDb fresh2 request2 worldDown))) = 2 \<and>
   fst (likeBlog ''p1'' ''u1'' worldDown) = Inr ''Blog liked successfully'' \<and>
   map_option b_likes (row ''p1'' (snd (likeBlog ''p1'' ''u1'' worldDown))) = Some 1"
proof -
  have d: "cacheDown worldDown" by code_simp
  have g: "row ''p1'' worldDown = Some post1 \<and> \<not> b_isDeleted post1 \<and> ''p1'' \<noteq> []"
    by code_simp
  have c: "truthy (user_id request2) = Some ''u1'' \<and>
      rowBySlug (body_slug request2) worldDown = None \<and> row (b_id fresh2) worldDown = None"
    by code_simp
  have rws: "rows worldDown = [post1]" by code_simp
  note t = cache_down_still_serves [OF d, of "''p1''" post1 request2 "''u1''" fresh2 "''p1''" post1 "''u1''"]
  show ?thesis
    using d g c t
    by (simp add: rws row_def) (simp add: post1_def fresh2_def request2_def orElse_def)
qed

section \<open>Reading a soft-deleted post\<close>

lemma safeRedisGet_logged [simp]: "safeRedisGet k (logged c w) = safeRedisGet k w"
  by (simp add: safeRedisGet_def redis_get_def)

lemma hidden_logged [simp]: "hidden i s (logged c w) = hidden i s w"
  by (simp add: hidden_def)

lemma hidden_availability [simp]: "hidden i s (availability d w) = hidden i s w"
  by (simp add: hidden_def availability_def lookup_def row_def rowBySlug_def)

lemma hidden_by_id:
  "hidden i s w \<Longrightarrow> i \<noteq> [] \<Longrightarrow> getBlogByIdFromDB i w = (Inl NotFound, logged (FindById i) w)"
  by (auto simp add: hidden_def getBlogByIdFromDB_def getBlog_def findFirst_def truthy_def
        safeRedisGet_absent)

lemma hidden_by_slug:
  "hidden i s w \<Longrightarrow> getBlogBySlug s w = (Inl NotFound, logged (FindBySlug s) w)"
  by (auto simp add: hidden_def getBlogBySlug_def getBlog_def findFirst_def truthy_def
        template_def safeRedisGet_absent)

lemma hidden_readAll:
  "hidden i s w \<Longrightarrow> i \<noteq> [] \<Longrightarrow>
   fst (readAll i s as w) = replicate (length as) (Inl NotFound)"
proof (induction as arbitrary: w)
  case Nil
  then show ?case by simp
next
  case (Cons a as)
  obtain d k where a: "a = (d, k)" by (cases a)
  have h: "hidden i s (availability d w)" using Cons.prems by simp
  show ?case
  proof (cases k)
    case ById
    have "hidden i s (logged (FindById i) (availability d w))" using h by simp
    from Cons.IH [OF this Cons.prems(2)] show ?thesis
      using h Cons.prems(2) by (simp add: a ById hidden_by_id split_beta)
  next
    case BySlug
    have "hidden i s (logged (FindBySlug s) (availability d w))" using h by simp
    from Cons.IH [OF this Cons.prems(2)] show ?thesis
      using h by (simp add: a BySlug hidden_by_slug split_beta)
  qed
qed

lemma find_slug_after_replace:
  assumes "\<forall>r\<in>set rs. b_slug r = s \<longrightarrow> b_id r = i" "find (\<lambda>r. b_id r = i) rs = Some b"
    "b_slug b' = s" "b_slug b = s"
  shows "find (\<lambda>r. b_slug r = s) (map (\<lambda>r. if b_id r = i then b' else r) rs) = Some b'"
  using assms by (induction rs) (auto split: if_splits)

lemma unique_slug_owner:
  assumes "distinct (map b_slug rs)" "find (\<lambda>r. b_id r = i) rs = Some b"
  shows "\<forall>r\<in>set rs. b_slug r = b_slug b \<longrightarrow> b_id r = i"
proof
  fix r assume r: "r \<in> set rs"
  have b: "b \<in> set rs" "b_id b = i"
    using assms(2) by (auto simp add: find_Some_iff)
  show "b_slug r = b_slug b \<longrightarrow> b_id r = i"
  proof
    assume "b_slug r = b_slug b"
    then have "r = b" using assms(1) r b(1) by (simp add: distinct_map inj_on_def)
    then show "b_id r = i" using b(2) by simp
  qed
qed

lemma softDelete_hides:
  assumes "\<not> cacheDown w" "distinct (map b_slug (rows w))" "row i w = Some b"
    "b_slug b \<noteq> []" "fst (softDeleteIntoDb i w) = Inr m"
  shows "hidden i (b_slug b) (snd (softDeleteIntoDb i w))"
proof -
  have nd: "\<not> b_isDeleted b"
    using assms(3,5) by (auto simp add: softDeleteIntoDb_def findUnique_id_def split: if_splits)
  have id: "b_id b = i" using assms(3) by (rule row_id)
  have run: "softDeleteIntoDb i w =
    (Inr ''Blog soft deleted successfully'',
     invalidateBlogCache i (Some (b_slug b))
       (logged (SetDeleted i) (setRow i (b\<lparr>b_isDeleted := True\<rparr>) (logged (FindById i) w))))"
    using assms(3) nd by (simp add: softDeleteIntoDb_def findUnique_id_def prisma_update_ok)
  have own: "\<forall>r\<in>set (rows w). b_slug r = b_slug b \<longrightarrow> b_id r = i"
    using assms(2,3) unique_slug_owner [of "rows w" i b] by (simp add: row_def)
  have bySlug: "rowBySlug (b_slug b) (setRow i (b\<lparr>b_isDeleted := True\<rparr>) w) =
      Some (b\<lparr>b_isDeleted := True\<rparr>)"
    using find_slug_after_replace [OF own, of b "b\<lparr>b_isDeleted := True\<rparr>"] assms(3)
    by (simp add: rowBySlug_def setRow_def row_def)
  have byId: "row i (setRow i (b\<lparr>b_isDeleted := True\<rparr>) w) = Some (b\<lparr>b_isDeleted := True\<rparr>)"
    using assms(3) id by (simp add: row_setRow)
  have setRow_logged: "setRow i x (logged c w) = logged c (setRow i x w)" for x c
    by (simp add: setRow_def logged_def)
  show ?thesis
    using assms(1,4) bySlug byId
    by (simp add: run hidden_def lookup_invalidateBlogCache invalidated_def
          truthy_def setRow_logged)
qed

text \<open>
  Claim C4, as stated, fails when the soft delete runs during a cache outage. The delete
  succeeds, since \<^verbatim>\<open>safeRedisDel\<close> swallows the failed invalidation, and both snapshots
  stay in the cache. Once the cache answers again, a read by identifier and a read by slug
  both hit and return the post, with the view just counted merged in, although the store
  marks the post as deleted.
\<close>

theorem soft_delete_in_outage_leaves_snapshot:
  "fst (softDeleteIntoDb ''p2'' (availability True published2)) =
     Inr ''Blog soft deleted successfully'' \<and>
   map_option b_isDeleted (row ''p2'' deletedInOutage) = Some True \<and>
   fst (getBlogByIdFromDB ''p2'' deletedInOutage) = Inr (post2\<lparr>b_views := 1\<rparr>) \<and>
   fst (getBlogBySlug ''second'' deletedInOutage) = Inr (post2\<lparr>b_views := 1\<rparr>)"
  by code_simp

text \<open>
  Claim C4, amended. Take a world with the slugs of the store unique, a post with a
  non-empty identifier and slug, and any cache contents, snapshots of the post taken before
  the delete included. Once \<^verbatim>\<open>softDeleteIntoDb\<close> has succeeded on the post with the cache
  reachable, every read of it that follows, by identifier (\<^verbatim>\<open>getBlogByIdFromDB\<close>) or by
  slug (\<^verbatim>\<open>getBlogBySlug\<close>), in any number and order, and with the cache reachable or down at
  the time of each read, fails with \<open>NotFound\<close>: the soft delete has removed both cache
  entries itself.
\<close>

theorem soft_deleted_post_is_not_found:
  assumes "\<not> cacheDown w" "distinct (map b_slug (rows w))" "row i w = Some b"
    "i \<noteq> []" "b_slug b \<noteq> []" "fst (softDeleteIntoDb i w) = Inr m"
  shows "fst (readAll i (b_slug b) as (snd (softDeleteIntoDb i w))) =
    replicate (length as) (Inl NotFound)"
  using softDelete_hides [OF assms(1,2,3,5,6)] assms(4) by (rule hidden_readAll)

theorem soft_deleted_post_is_not_found_witness:
  "lookup (CacheKeys_blog ''p2'') published2 = Some (Snapshot post2) \<and>
   lookup (CacheKeys_blogSlug ''second'') published2 = Some (Snapshot post2) \<and>
   fst (softDeleteIntoDb ''p2'' published2) = Inr ''Blog soft deleted successfully'' \<and>
   fst (readAll ''p2'' ''second'' [(False, ById), (False, BySlug), (True, ById), (False, BySlug)]
          (snd (softDeleteIntoDb ''p2'' published2))) =
     [Inl NotFound, Inl NotFound, Inl NotFound, Inl NotFound]"
proof -
  have c1: "lookup (CacheKeys_blog ''p2'') published2 = Some (Snapshot post2)" by code_simp
  have c2: "lookup (CacheKeys_blogSlug ''second'') published2 = Some (Snapshot post2)"
    by code_simp
  have h1: "\<not> cacheDown published2" by code_simp
  have h2: "distinct (map b_slug (rows published2))" by code_simp
  have h3: "row ''p2'' published2 = Some post2" by code_simp
  have h4: "''p2'' \<noteq> []" by simp
  have h5: "b_slug post2 \<noteq> []" by code_simp
  have h6: "fst (softDeleteIntoDb ''p2'' published2) = Inr ''Blog soft deleted successfully''"
    by code_simp
  have s: "b_slug post2 = ''second''" by code_simp
  show ?thesis
    using c1 c2 h6
      soft_deleted_post_is_not_found [OF h1 h2 h3 h4 h5 h6,
        of "[(False, ById), (False, BySlug), (True, ById), (False, BySlug)]"]
    by (simp add: s)
qed

section \<open>What a mutation leaves in the cache\<close>

lemma prisma_update_frame [simp]:
  "cache (snd (prisma_update i c f w)) = cache w"
  "cacheDown (snd (prisma_update i c f w)) = cacheDown w"
  by (simp_all add: prisma_update_def split: option.splits)

lemma prisma_delete_frame [simp]:
  "cache (snd (prisma_delete i w)) = cache w"
  "cacheDown (snd (prisma_delete i w)) = cacheDown w"
  by (simp_all add: prisma_delete_def logged_def split: option.splits)

lemma prisma_update_cacheDown:
  "prisma_update i c f w = (r, w') \<Longrightarrow> cacheDown w' = cacheDown w"
  using prisma_update_frame(2) [of i c f w] by simp

lemma prisma_delete_cacheDown:
  "prisma_delete i w = (r, w') \<Longrightarrow> cacheDown w' = cacheDown w"
  using prisma_delete_frame(2) [of i w] by simp

lemma after_invalidateBlogCache:
  assumes "\<not> cacheDown v"
  shows "lookup (CacheKeys_blog i) (invalidateBlogCache i sl v) = None"
    and "listingsGone (invalidateBlogCache i sl v)"
  using assms
  by (simp_all add: listingsGone_def lookup_invalidateBlogCache invalidated_def
        keysMatching_invalidateBlogCache)

lemma slug_after_invalidateBlogCache:
  "\<not> cacheDown v \<Longrightarrow> s \<noteq> [] \<Longrightarrow>
   lookup (CacheKeys_blogSlug s) (invalidateBlogCache i (Some s) v) = None"
  by (simp add: lookup_invalidateBlogCache invalidated_def truthy_def)

lemma likeBlog_invalidates:
  "\<not> cacheDown w \<Longrightarrow> fst (likeBlog i u w) = Inr m \<Longrightarrow>
   lookup (CacheKeys_blog i) (snd (likeBlog i u w)) = None \<and> listingsGone (snd (likeBlog i u w))"
  by (auto simp add: likeBlog_def Let_def after_invalidateBlogCache
        split: if_splits prod.splits sum.splits dest: prisma_update_cacheDown)

lemma unlikeBlog_invalidates:
  "\<not> cacheDown w \<Longrightarrow> fst (unlikeBlog i u w) = Inr m \<Longrightarrow>
   lookup (CacheKeys_blog i) (snd (unlikeBlog i u w)) = None \<and>
   listingsGone (snd (unlikeBlog i u w))"
  by (auto simp add: unlikeBlog_def Let_def after_invalidateBlogCache
        split: if_splits prod.splits sum.splits dest: prisma_update_cacheDown)

lemma deleteIntoDb_invalidates:
  "\<not> cacheDown w \<Longrightarrow> fst (deleteIntoDb i w) = Inr m \<Longrightarrow> row i w = Some b \<Longrightarrow>
   lookup (CacheKeys_blog i) (snd (deleteIntoDb i w)) = None \<and>
   listingsGone (snd (deleteIntoDb i w)) \<and>
   (b_slug b \<noteq> [] \<longrightarrow> lookup (CacheKeys_blogSlug (b_slug b)) (snd (deleteIntoDb i w)) = None)"
  by (auto simp add: deleteIntoDb_def findUnique_id_def after_invalidateBlogCache
        slug_after_invalidateBlogCache
        split: if_splits prod.splits sum.splits dest: prisma_delete_cacheDown)

lemma softDeleteIntoDb_invalidates:
  "\<not> cacheDown w \<Longrightarrow> fst (softDeleteIntoDb i w) = Inr m \<Longrightarrow> row i w = Some b \<Longrightarrow>
   lookup (CacheKeys_blog i) (snd (softDeleteIntoDb i w)) = None \<and>
   listingsGone (snd (softDeleteIntoDb i w)) \<and>
   (b_slug b \<noteq> [] \<longrightarrow>
      lookup (CacheKeys_blogSlug (b_slug b)) (snd (softDeleteIntoDb i w)) = None)"
  by (auto simp add: softDeleteIntoDb_def findUnique_id_def after_invalidateBlogCache
        slug_after_invalidateBlogCache
        split: if_splits prod.splits sum.splits dest: prisma_update_cacheDown)

lemma listingsGone_safeRedisSet:
  "listingsGone w \<Longrightarrow> \<not> cacheDown w \<Longrightarrow> k \<noteq> CacheKeys_trending \<Longrightarrow>
   \<not> startsWith ''blogs:all:'' k \<Longrightarrow> \<not> startsWith ''blogs:user:'' k \<Longrightarrow>
   listingsGone (safeRedisSet k t v w)"
  by (simp add: listingsGone_def lookup_safeRedisSet keysMatching_safeRedisSet)

lemma after_recache:
  assumes "\<not> cacheDown v"
  shows "lookup (CacheKeys_blog i) (recache i b ub v) = Some (Snapshot ub)"
    and "listingsGone (recache i b ub v)"
    and "b_slug ub \<noteq> b_slug b \<Longrightarrow>
         lookup (CacheKeys_blogSlug (b_slug ub)) (recache i b ub v) = Some (Snapshot ub)"
    and "b_slug b \<noteq> [] \<Longrightarrow> i \<noteq> ''slug:'' @ b_slug b \<Longrightarrow>
         lookup (CacheKeys_blogSlug (b_slug b)) (recache i b ub v) = None"
  using assms
  by (simp_all add: recache_def Let_def lookup_safeRedisSet after_invalidateBlogCache
        listingsGone_safeRedisSet slug_after_invalidateBlogCache blogSlug_blog)

lemma updateIntoDb_recaches:
  "\<not> cacheDown w \<Longrightarrow> fst (updateIntoDb i d w) = Inr ub \<Longrightarrow> row i w = Some b \<Longrightarrow>
   lookup (CacheKeys_blog i) (snd (updateIntoDb i d w)) = Some (Snapshot ub) \<and>
   listingsGone (snd (updateIntoDb i d w)) \<and>
   (b_slug ub \<noteq> b_slug b \<longrightarrow>
      lookup (CacheKeys_blogSlug (b_slug ub)) (snd (updateIntoDb i d w)) = Some (Snapshot ub)) \<and>
   (b_slug b \<noteq> [] \<and> i \<noteq> ''slug:'' @ b_slug b \<longrightarrow>
      lookup (CacheKeys_blogSlug (b_slug b)) (snd (updateIntoDb i d w)) = None)"
  by (simp add: updateIntoDb_def findUnique_id_def findUnique_slug_def Let_def split_beta
        after_recache
        split: if_splits sum.splits option.splits)


text \<open>
  Claim C3, as stated, fails. After \<^verbatim>\<open>updateIntoDb\<close> the primary-key entry is present: the
  update ends by caching the fresh snapshot. After \<^verbatim>\<open>likeBlog\<close> the slug entry is still the
  one a read by slug had stored: \<^verbatim>\<open>invalidateBlogCache(blogId)\<close> is called without a slug.
\<close>

theorem update_and_like_leave_entries:
  "fst (updateIntoDb ''p1'' retitle world0) = Inr (post1\<lparr>b_title := ''New''\<rparr>) \<and>
   lookup (CacheKeys_blog ''p1'') (snd (updateIntoDb ''p1'' retitle world0)) =
     Some (Snapshot (post1\<lparr>b_title := ''New''\<rparr>)) \<and>
   lookup (CacheKeys_blogSlug ''hello'') readBySlug = Some (Snapshot post1) \<and>
   fst (likeBlog ''p1'' ''u1'' readBySlug) = Inr ''Blog liked successfully'' \<and>
   lookup (CacheKeys_blogSlug ''hello'') (snd (likeBlog ''p1'' ''u1'' readBySlug)) =
     Some (Snapshot post1)"
  by code_simp

text \<open>
  Claim C3, amended. With the cache reachable, right after a successful mutation of a post:
  after a hard or a soft delete, the primary-key entry, the entry of the post's (non-empty)
  slug, the trending snapshot and every listing-page and per-owner listing entry are absent;
  after a like or an unlike, the primary-key entry, the trending snapshot and every listing
  entry are absent; after an update, the trending snapshot and every listing entry are
  absent, the primary-key entry holds the fresh snapshot of the updated row, so does the
  entry of the new slug when the slug changed, and the entry of the old slug is absent
  (unless the identifier is the word \<^verbatim>\<open>slug:\<close> followed by that slug, in which case the
  two keys are one).
\<close>

theorem mutations_leave_cache:
  assumes "\<not> cacheDown w"
  shows
   "(fst (deleteIntoDb i w) = Inr m1 \<and> row i w = Some b \<longrightarrow>
       lookup (CacheKeys_blog i) (snd (deleteIntoDb i w)) = None \<and>
       listingsGone (snd (deleteIntoDb i w)) \<and>
       (b_slug b \<noteq> [] \<longrightarrow>
          lookup (CacheKeys_blogSlug (b_slug b)) (snd (deleteIntoDb i w)) = None)) \<and>
    (fst (softDeleteIntoDb i w) = Inr m2 \<and> row i w = Some b \<longrightarrow>
       lookup (CacheKeys_blog i) (snd (softDeleteIntoDb i w)) = None \<and>
       listingsGone (snd (softDeleteIntoDb i w)) \<and>
       (b_slug b \<noteq> [] \<longrightarrow>
          lookup (CacheKeys_blogSlug (b_slug b)) (snd (softDeleteIntoDb i w)) = None)) \<and>
    (fst (likeBlog i u w) = Inr m3 \<longrightarrow>
       lookup (CacheKeys_blog i) (snd (likeBlog i u w)) = None \<and>
       listingsGone (snd (likeBlog i u w))) \<and>
    (fst (unlikeBlog i u' w) = Inr m4 \<longrightarrow>
       lookup (CacheKeys_blog i) (snd (unlikeBlog i u' w)) = None \<and>
       listingsGone (snd (unlikeBlog i u' w))) \<and>
    (fst (updateIntoDb i d w) = Inr ub \<and> row i w = Some b \<longrightarrow>
       lookup (CacheKeys_blog i) (snd (updateIntoDb i d w)) = Some (Snapshot ub) \<and>
       listingsGone (snd (updateIntoDb i d w)) \<and>
       (b_slug ub \<noteq> b_slug b \<longrightarrow>
          lookup (CacheKeys_blogSlug (b_slug ub)) (snd (updateIntoDb i d w)) =
            Some (Snapshot ub)) \<and>
       (b_slug b \<noteq> [] \<and> i \<noteq> ''slug:'' @ b_slug b \<longrightarrow>
          lookup (CacheKeys_blogSlug (b_slug b)) (snd (updateIntoDb i d w)) = None))"
  using deleteIntoDb_invalidates [OF assms, of i m1 b]
    softDeleteIntoDb_invalidates [OF assms, of i m2 b]
    likeBlog_invalidates [OF assms, of i u m3]
    unlikeBlog_invalidates [OF assms, of i u' m4]
    updateIntoDb_recaches [OF assms, of i d ub b]
  by blast

theorem mutations_leave_cache_witness:
  "\<not> cacheDown busyWorld \<and>
   keysMatching ''blogs:all:'' busyWorld = [''blogs:all:1:10''] \<and>
   keysMatching ''blogs:user:'' busyWorld = [''blogs:user:u1''] \<and>
   fst (deleteIntoDb ''p1'' busyWorld) = Inr ''Blog deleted successfully'' \<and>
   lookup (CacheKeys_blog ''p1'') (snd (deleteIntoDb ''p1'' busyWorld)) = None \<and>
   listingsGone (snd (deleteIntoDb ''p1'' busyWorld)) \<and>
   lookup (CacheKeys_blogSlug ''hello'') (snd (deleteIntoDb ''p1'' busyWorld)) = None \<and>
   fst (softDeleteIntoDb ''p1'' busyWorld) = Inr ''Blog soft deleted successfully'' \<and>
   lookup (CacheKeys_blog ''p1'') (snd (softDeleteIntoDb ''p1'' busyWorld)) = None \<and>
   listingsGone (snd (softDeleteIntoDb ''p1'' busyWorld)) \<and>
   lookup (CacheKeys_blogSlug ''hello'') (snd (softDeleteIntoDb ''p1'' busyWorld)) = None \<and>
   fst (likeBlog ''p1'' ''u1'' busyWorld) = Inr ''Blog liked successfully'' \<and>
   lookup (CacheKeys_blog ''p1'') (snd (likeBlog ''p1'' ''u1'' busyWorld)) = None \<and>
   listingsGone (snd (likeBlog ''p1'' ''u1'' busyWorld)) \<and>
   fst (unlikeBlog ''p1'' ''u2'' busyWorld) = Inr ''Blog unliked successfully'' \<and>
   lookup (CacheKeys_blog ''p1'') (snd (unlikeBlog ''p1'' ''u2'' busyWorld)) = None \<and>
   listingsGone (snd (unlikeBlog ''p1'' ''u2'' busyWorld)) \<and>
   fst (updateIntoDb ''p1'' retitle busyWorld) = Inr (post1\<lparr>b_title := ''New''\<rparr>) \<and>
   lookup (CacheKeys_blog ''p1'') (snd (updateIntoDb ''p1'' retitle busyWorld)) =
     Some (Snapshot (post1\<lparr>b_title := ''New''\<rparr>)) \<and>
   listingsGone (snd (updateIntoDb ''p1'' retitle busyWorld)) \<and>
   lookup (CacheKeys_blogSlug ''hello'') (snd (updateIntoDb ''p1'' retitle busyWorld)) = None"
proof -
  have up: "\<not> cacheDown busyWorld" by code_simp
  have k1: "keysMatching ''blogs:all:'' busyWorld = [''blogs:all:1:10'']" by code_simp
  have k2: "keysMatching ''blogs:user:'' busyWorld = [''blogs:user:u1'']" by code_simp
  have r: "row ''p1'' busyWorld = Some post1" by code_simp
  have s: "b_slug post1 = ''hello''" "b_slug (post1\<lparr>b_title := ''New''\<rparr>) = ''hello''"
    by code_simp+
  have h1: "fst (deleteIntoDb ''p1'' busyWorld) = Inr ''Blog deleted successfully''"
    by code_simp
  have h2: "fst (softDeleteIntoDb ''p1'' busyWorld) = Inr ''Blog soft deleted successfully''"
    by code_simp
  have h3: "fst (likeBlog ''p1'' ''u1'' busyWorld) = Inr ''Blog liked successfully''"
    by code_simp
  have h4: "fst (unlikeBlog ''p1'' ''u2'' busyWorld) = Inr ''Blog unliked successfully''"
    by code_simp
  have h5: "fst (updateIntoDb ''p1'' retitle busyWorld) = Inr (post1\<lparr>b_title := ''New''\<rparr>)"
    by code_simp
  note t = mutations_leave_cache [OF up, where i = "''p1''" and b = post1 and u = "''u1''"
      and u' = "''u2''" and d = retitle and ub = "post1\<lparr>b_title := ''New''\<rparr>"
      and ?m1.0 = "''Blog deleted successfully''" and ?m2.0 = "''Blog soft deleted successfully''"
      and ?m3.0 = "''Blog liked successfully''" and ?m4.0 = "''Blog unliked successfully''"]
  show ?thesis
    using up k1 k2 r h1 h2 h3 h4 h5 t by (simp add: s)
qed

section \<open>Counting views\<close>

lemma redis_incr_counter:
  assumes "\<not> cacheDown w"
    "lookup k w = (if n = 0 then None else Some (Num (int n)))"
  shows "\<exists>t. redis_incr k w = Inr (int (Suc n), store k (Num (int (Suc n)), t) w)"
proof (cases "n = 0")
  case True
  then show ?thesis
    using assms redis_add_absent [of w k 1] by (auto simp add: redis_incr_def)
next
  case False
  then show ?thesis
    using assms redis_add_present [of w k "int n" 1] by (simp add: redis_incr_def add.commute)
qed

lemma incrementViews_step:
  assumes "\<not> cacheDown w" "row i w = Some b"
    "lookup (CacheKeys_views i) w = (if n = 0 then None else Some (Num (int n)))"
  shows "\<not> cacheDown (incrementViews i None w) \<and>
    lookup (CacheKeys_views i) (incrementViews i None w) = Some (Num (int (Suc n))) \<and>
    row i (incrementViews i None w) =
      Some (if Suc n mod 10 = 0 then b\<lparr>b_views := b_views b + 10\<rparr> else b) \<and>
    dbLog (incrementViews i None w) =
      dbLog w @ (if Suc n mod 10 = 0 then [IncrViews i 10] else []) \<and>
    lookup (CacheKeys_blog i) (incrementViews i None w) = None"
proof -
  obtain t where inc: "redis_incr (CacheKeys_views i) w =
      Inr (int (Suc n), store (CacheKeys_views i) (Num (int (Suc n)), t) w)"
    using redis_incr_counter [OF assms(1,3)] by blast
  let ?w1 = "store (CacheKeys_views i) (Num (int (Suc n)), t) w"
  have id: "b_id b = i" using assms(2) by (rule row_id)
  have m: "int (Suc n) mod 10 = 0 \<longleftrightarrow> Suc n mod 10 = 0"
    by presburger
  show ?thesis
  proof (cases "Suc n mod 10 = 0")
    case True
    have upd: "prisma_update i (IncrViews i 10) (\<lambda>b. b\<lparr>b_views := b_views b + 10\<rparr>) ?w1 =
        (Inr (b\<lparr>b_views := b_views b + 10\<rparr>),
         logged (IncrViews i 10) (setRow i (b\<lparr>b_views := b_views b + 10\<rparr>) ?w1))"
      using assms(2) by (simp add: prisma_update_ok)
    have run: "incrementViews i None w =
        safeRedisDel [CacheKeys_blog i]
          (logged (IncrViews i 10) (setRow i (b\<lparr>b_views := b_views b + 10\<rparr>) ?w1))"
      using True m inc upd by (simp add: incrementViews_def truthy_def del: of_nat_Suc)
    show ?thesis
      using True assms(1,2) id
      by (simp add: run lookup_safeRedisDel lookup_store row_setRow del: of_nat_Suc)
  next
    case False
    have run: "incrementViews i None w = safeRedisDel [CacheKeys_blog i] ?w1"
      using False m inc by (simp add: incrementViews_def truthy_def del: of_nat_Suc)
    show ?thesis
      using False assms(1,2)
      by (simp add: run lookup_safeRedisDel lookup_store del: of_nat_Suc)
  qed
qed

lemma recordViews_state:
  assumes "\<not> cacheDown w" "row i w = Some b" "lookup (CacheKeys_views i) w = None"
  shows "\<not> cacheDown (recordViews n i w) \<and>
    lookup (CacheKeys_views i) (recordViews n i w) = (if n = 0 then None else Some (Num (int n))) \<and>
    row i (recordViews n i w) = Some (b\<lparr>b_views := b_views b + 10 * int (n div 10)\<rparr>) \<and>
    dbLog (recordViews n i w) = dbLog w @ replicate (n div 10) (IncrViews i 10)"
proof (induction n)
  case 0
  then show ?case using assms by simp
next
  case (Suc n)
  let ?b = "b\<lparr>b_views := b_views b + 10 * int (n div 10)\<rparr>"
  from Suc have up: "\<not> cacheDown (recordViews n i w)"
    and cnt: "lookup (CacheKeys_views i) (recordViews n i w) =
        (if n = 0 then None else Some (Num (int n)))"
    and r: "row i (recordViews n i w) = Some ?b"
    and lg: "dbLog (recordViews n i w) = dbLog w @ replicate (n div 10) (IncrViews i 10)"
    by simp_all
  note step = incrementViews_step [OF up r cnt]
  show ?case
  proof (cases "Suc n mod 10 = 0")
    case True
    then have d: "Suc n div 10 = Suc (n div 10)" by (simp add: div_Suc)
    show ?thesis
      using step True
      by (simp add: d lg replicate_append_same algebra_simps)
  next
    case False
    then have d: "Suc n div 10 = n div 10" by (simp add: div_Suc)
    show ?thesis
      using step False by (simp add: d lg)
  qed
qed


lemma viewCounter_lookup:
  "\<not> cacheDown w \<Longrightarrow> lookup (CacheKeys_views i) w = (if n = 0 then None else Some (Num (int n)))
   \<Longrightarrow> viewCounter i w = int n"
  by (simp add: viewCounter_def redisViews_def safeRedisGet_up)

text \<open>
  Claim C2, as stated, fails in its sum: a flush adds 10 to the row and leaves the Redis
  counter as it is, so the counter is the number of calls, not the part not yet flushed.
  After 19 calls on a post with 0 persisted views and no counter, one increment of 10 has
  been issued, the row says 10, the counter says 19, and the two add up to 29.
\<close>

theorem recordViews_double_counts:
  "persistedViews ''p1'' world0 = 0 \<and> lookup (CacheKeys_views ''p1'') world0 = None \<and>
   dbLog (recordViews 19 ''p1'' world0) = [IncrViews ''p1'' 10] \<and>
   persistedViews ''p1'' (recordViews 19 ''p1'' world0) = 10 \<and>
   viewCounter ''p1'' (recordViews 19 ''p1'' world0) = 19 \<and>
   persistedViews ''p1'' (recordViews 19 ''p1'' world0) +
     viewCounter ''p1'' (recordViews 19 ''p1'' world0) = 29"
  by code_simp

text \<open>
  Claim C2, amended. With the cache reachable, the post in the store and no view counter
  yet, after \<open>n\<close> calls of \<^verbatim>\<open>incrementViews\<close> in a row exactly \<open>n div 10\<close> increments of
  10 have been issued to the store, one at each call whose number is a multiple of 10; the
  Redis counter reads \<open>n\<close>; the persisted count is the old one plus \<open>10 * (n div 10)\<close>;
  and the persisted count plus the counter modulo 10 is the old count plus \<open>n\<close>.
\<close>

theorem recordViews_flushes_every_tenth:
  assumes "\<not> cacheDown w" "row blogId w = Some b" "lookup (CacheKeys_views blogId) w = None"
  shows "dbLog (recordViews n blogId w) = dbLog w @ replicate (n div 10) (IncrViews blogId 10) \<and>
    dbLog (recordViews (Suc n) blogId w) =
      dbLog (recordViews n blogId w) @ (if Suc n mod 10 = 0 then [IncrViews blogId 10] else []) \<and>
    viewCounter blogId (recordViews n blogId w) = int n \<and>
    persistedViews blogId (recordViews n blogId w) =
      persistedViews blogId w + 10 * int (n div 10) \<and>
    persistedViews blogId (recordViews n blogId w) +
      viewCounter blogId (recordViews n blogId w) mod 10 = persistedViews blogId w + int n"
proof -
  note st = recordViews_state [OF assms, of n]
  note st' = recordViews_state [OF assms, of "Suc n"]
  have c: "viewCounter blogId (recordViews n blogId w) = int n"
    using st by (simp add: viewCounter_lookup)
  have p: "persistedViews blogId (recordViews n blogId w) =
      persistedViews blogId w + 10 * int (n div 10)"
    using st assms(2) by (simp add: persistedViews_def)
  have l: "dbLog (recordViews (Suc n) blogId w) =
      dbLog (recordViews n blogId w) @ (if Suc n mod 10 = 0 then [IncrViews blogId 10] else [])"
    using st st' by (simp add: div_Suc replicate_append_same)
  have a: "10 * int (n div 10) + int n mod 10 = int n"
    by presburger
  show ?thesis
    using st c p l a by simp
qed

theorem recordViews_flushes_every_tenth_witness:
  "dbLog (recordViews 9 ''p1'' world0) = [] \<and>
   dbLog (recordViews 10 ''p1'' world0) = [IncrViews ''p1'' 10] \<and>
   dbLog (recordViews 19 ''p1'' world0) = [IncrViews ''p1'' 10] \<and>
   viewCounter ''p1'' (recordViews 19 ''p1'' world0) = 19 \<and>
   persistedViews ''p1'' (recordViews 19 ''p1'' world0) = 10 \<and>
   persistedViews ''p1'' (recordViews 19 ''p1'' world0) +
     viewCounter ''p1'' (recordViews 19 ''p1'' world0) mod 10 = 19"
proof -
  have h1: "\<not> cacheDown world0" by code_simp
  have h2: "row ''p1'' world0 = Some post1" by code_simp
  have h3: "lookup (CacheKeys_views ''p1'') world0 = None" by code_simp
  have l0: "dbLog world0 = []" by code_simp
  have p0: "persistedViews ''p1'' world0 = 0" by code_simp
  show ?thesis
    using recordViews_flushes_every_tenth [OF h1 h2 h3, of 9]
      recordViews_flushes_every_tenth [OF h1 h2 h3, of 19]
    by (simp add: l0 p0)
qed

section \<open>Reading a post twice by its identifier\<close>

text \<open>
  A read by identifier that misses stores the snapshot and then counts the view; counting
  the view deletes the entry just stored. This holds for any post in the store, whatever
  the view counter reads.
\<close>

lemma getBlogByIdFromDB_miss:
  assumes "\<not> cacheDown w" "i \<noteq> []" "row i w = Some b" "\<not> b_isDeleted b"
    "lookup (CacheKeys_blog i) w = None"
    "lookup (CacheKeys_views i) w = (if n = 0 then None else Some (Num (int n)))"
  shows "fst (getBlogByIdFromDB i w) = Inr b \<and>
    lookup (CacheKeys_blog i) (snd (getBlogByIdFromDB i w)) = None"
proof -
  let ?w1 = "safeRedisSet (CacheKeys_blog i) CacheTTL_blog (Snapshot b) (logged (FindById i) w)"
  have id: "b_id b = i" using assms(3) by (rule row_id)
  have run: "getBlogByIdFromDB i w = (Inr b, incrementViews i None ?w1)"
    using assms id
    by (simp add: getBlogByIdFromDB_def getBlog_def findFirst_def truthy_def safeRedisGet_up)
  have "lookup (CacheKeys_blog i) (incrementViews i None ?w1) = None"
    using incrementViews_step [of ?w1 i b n] assms
    by (simp add: lookup_safeRedisSet)
  then show ?thesis by (simp add: run)
qed

text \<open>
  Claim C1, evaluated on the code. The store holds one post, the cache is empty and
  reachable. The first \<^verbatim>\<open>getBlogByIdFromDB\<close> misses, queries the store and returns the
  post; when it returns, the cache has no entry under the post's primary key. The second
  read returns the post as well, and the log of the store shows a second query.
\<close>

theorem getBlogByIdFromDB_drops_its_snapshot:
  "fst (getBlogByIdFromDB ''p1'' world0) = Inr post1 \<and>
   lookup (CacheKeys_blog ''p1'') (snd (getBlogByIdFromDB ''p1'' world0)) = None \<and>
   dbLog (snd (getBlogByIdFromDB ''p1'' world0)) = [FindById ''p1''] \<and>
   fst (getBlogByIdFromDB ''p1'' (snd (getBlogByIdFromDB ''p1'' world0))) = Inr post1 \<and>
   dbLog (snd (getBlogByIdFromDB ''p1'' (snd (getBlogByIdFromDB ''p1'' world0)))) =
     [FindById ''p1'', FindById ''p1'']"
  by code_simp

text \<open>
  The read by slug is the same function, and its snapshot stays: the view count deletes the
  primary key only. A second read by slug issues no query.
\<close>

lemma getBlogBySlug_keeps_its_snapshot:
  "lookup (CacheKeys_blogSlug ''hello'') readBySlug = Some (Snapshot post1) \<and>
   dbLog readBySlug = [FindBySlug ''hello''] \<and>
   dbLog (snd (getBlogBySlug ''hello'' readBySlug)) = [FindBySlug ''hello'']"
  by code_simp

section \<open>Two likes at once\<close>

lemma likeStep_simps:
  "likeStep i u AtCheck w =
     (if safeRedisGet (CacheKeys_userLike u i) w \<noteq> None
      then (Returned (Inl AlreadyLiked), w) else (AtMark, w))"
  "likeStep i u AtMark w =
     (AtCount, safeRedisSet (CacheKeys_userLike u i) CacheTTL_userLike (Num 1) w)"
  "likeStep i u AtCount w = (AtPersist, incrOrIgnore (CacheKeys_likes i) w)"
  "likeStep i u AtPersist w =
     (case fst (prisma_update i (IncrLikes i 1) (\<lambda>b. b\<lparr>b_likes := b_likes b + 1\<rparr>) w) of
        Inl err \<Rightarrow> Returned (Inl err)
      | Inr b \<Rightarrow> AtInvalidate,
      snd (prisma_update i (IncrLikes i 1) (\<lambda>b. b\<lparr>b_likes := b_likes b + 1\<rparr>) w))"
  "likeStep i u AtInvalidate w =
     (Returned (Inr ''Blog liked successfully''), invalidateBlogCache i None w)"
  "likeStep i u (Returned r) w = (Returned r, w)"
  by (simp_all add: likeStep_def split_beta split: sum.splits)

text \<open>One call, run alone through its five steps, is \<^verbatim>\<open>likeBlog\<close>.\<close>

lemma likeBlog_is_its_steps:
  "interleave blogId userId [False, False, False, False, False] (AtCheck, pc2, w) =
     (Returned (fst (likeBlog blogId userId w)), pc2, snd (likeBlog blogId userId w))"
  by (simp add: likeStep_simps likeBlog_def Let_def split_beta split: sum.splits)

lemma likeBlog_in_turn:
  "fst (interleave ''p1'' ''u1'' [False, False, False, False, False, True, True, True, True, True]
          (AtCheck, AtCheck, world0)) = Returned (Inr ''Blog liked successfully'') \<and>
   fst (snd (interleave ''p1'' ''u1'' [False, False, False, False, False, True, True, True, True, True]
          (AtCheck, AtCheck, world0))) = Returned (Inl AlreadyLiked) \<and>
   persistedLikes ''p1''
     (snd (snd (interleave ''p1'' ''u1'' [False, False, False, False, False, True, True, True, True, True]
          (AtCheck, AtCheck, world0)))) = 1"
  by code_simp

text \<open>
  Claim C9, evaluated on the code. Two calls of \<^verbatim>\<open>likeBlog\<close> for the same post and user
  start with no marker and a like count of 0, and take their steps in turn: both read the
  marker before either writes it. Both return success, and the persisted like count is 2.
  The marker is written by a plain \<^verbatim>\<open>setex\<close> after a separate \<^verbatim>\<open>get\<close>, not by a
  conditional set.
\<close>

theorem likeBlog_race_counts_twice:
  "lookup (CacheKeys_userLike ''u1'' ''p1'') world0 = None \<and>
   persistedLikes ''p1'' world0 = 0 \<and>
   fst (interleave ''p1'' ''u1'' [False, True, False, True, False, True, False, True, False, True]
          (AtCheck, AtCheck, world0)) = Returned (Inr ''Blog liked successfully'') \<and>
   fst (snd (interleave ''p1'' ''u1'' [False, True, False, True, False, True, False, True, False, True]
          (AtCheck, AtCheck, world0))) = Returned (Inr ''Blog liked successfully'') \<and>
   persistedLikes ''p1''
     (snd (snd (interleave ''p1'' ''u1'' [False, True, False, True, False, True, False, True, False, True]
          (AtCheck, AtCheck, world0)))) = 2"
  by code_simp

end
